theory Spec2Isabelle
  imports Main "HOL-Library.Sublist" "HOL-Library.Char_ord" "HOL-Library.List_Lexorder"
    "HOL-Library.Multiset"
begin

section \<open>JavaScript strings\<close>

text \<open>
  A JavaScript string is a sequence of UTF-16 code units. It is modelled as a \<open>string\<close>
  (a \<open>char list\<close>) in which every \<open>char\<close> stands for one code unit below 256; all
  markers, patterns and constants of the program are ASCII. \<open>length\<close> is the string's
  \<open>.length\<close>.
\<close>

text \<open>
  \<open>String.prototype.indexOf(pat)\<close>: the smallest index at which \<open>pat\<close> occurs, or
  \<open>-1\<close> when it does not occur.
\<close>

fun indexOf :: "string \<Rightarrow> string \<Rightarrow> int" where
  "indexOf [] pat = (if pat = [] then 0 else - 1)"
| "indexOf (c # cs) pat =
     (if prefix pat (c # cs) then 0
      else (let i = indexOf cs pat in if i = - 1 then - 1 else i + 1))"

text \<open>\<open>String.prototype.includes(pat)\<close> is \<open>indexOf(pat) !== -1\<close>.\<close>

definition includesStr :: "string \<Rightarrow> string \<Rightarrow> bool" where
  "includesStr s pat = (indexOf s pat \<noteq> - 1)"

text \<open>
  \<open>String.prototype.substring(start, end)\<close>: both arguments are clamped to
  \<open>[0, length]\<close> and swapped when \<open>start > end\<close>. With one argument, \<open>end\<close> is the
  length of the string.
\<close>

definition substring :: "string \<Rightarrow> int \<Rightarrow> int \<Rightarrow> string" where
  "substring s start stop =
     (let len = int (length s);
          finalStart = min (max start 0) len;
          finalEnd = min (max stop 0) len;
          lo = min finalStart finalEnd;
          hi = max finalStart finalEnd
      in take (nat (hi - lo)) (drop (nat lo) s))"

definition substringFrom :: "string \<Rightarrow> int \<Rightarrow> string" where
  "substringFrom s start = substring s start (int (length s))"

text \<open>
  The white space and line terminator code units below 256 that \<open>trim\<close> and
  \<open>trimEnd\<close> strip: TAB, LF, VT, FF, CR, SP and NBSP.
\<close>

definition isWhiteSpace :: "char \<Rightarrow> bool" where
  "isWhiteSpace c = (c \<in> {CHR 0x09, CHR 0x0A, CHR 0x0B, CHR 0x0C, CHR 0x0D, CHR 0x20, CHR 0xA0})"

definition trimStart :: "string \<Rightarrow> string" where
  "trimStart s = dropWhile isWhiteSpace s"

definition trimEnd :: "string \<Rightarrow> string" where
  "trimEnd s = rev (dropWhile isWhiteSpace (rev s))"

definition trim :: "string \<Rightarrow> string" where
  "trim s = trimEnd (trimStart s)"

text \<open>
  \<open>String.prototype.toLowerCase\<close> on code units below 256: the ASCII capitals and the
  Latin-1 capitals (all of \<open>0xC0..0xDE\<close> but the multiplication sign \<open>0xD7\<close>) move up by
  32; every other code unit is kept.
\<close>

definition toLowerCaseChar :: "char \<Rightarrow> char" where
  "toLowerCaseChar c =
     (let n = (of_char c :: nat)
      in if (65 \<le> n \<and> n \<le> 90) \<or> (192 \<le> n \<and> n \<le> 222 \<and> n \<noteq> 215)
         then char_of (n + 32) else c)"

definition toLowerCase :: "string \<Rightarrow> string" where
  "toLowerCase s = map toLowerCaseChar s"

text \<open>\<open>String.prototype.endsWith\<close> and \<open>Array.prototype.join\<close>.\<close>

definition endsWith :: "string \<Rightarrow> string \<Rightarrow> bool" where
  "endsWith s pat = suffix pat s"

fun join :: "string list \<Rightarrow> string \<Rightarrow> string" where
  "join [] sep = []"
| "join [x] sep = x"
| "join (x # y # ys) sep = x @ sep @ join (y # ys) sep"

text \<open>\<open>Array.prototype.find\<close>.\<close>

fun find_first :: "('a \<Rightarrow> bool) \<Rightarrow> 'a list \<Rightarrow> 'a option" where
  "find_first P [] = None"
| "find_first P (x # xs) = (if P x then Some x else find_first P xs)"


section \<open>Region parser\<close>

definition BEGIN_MARKER :: string where
  "BEGIN_MARKER = ''<!-- auracoil:begin -->''"

definition END_MARKER :: string where
  "END_MARKER = ''<!-- auracoil:end -->''"

definition DEFAULT_REGION :: string where
  "DEFAULT_REGION =
     BEGIN_MARKER
     @ ''\<newline>## GPT Insights (maintained by Auracoil)\<newline>\<newline>''
     @ ''_No reviews yet. Run `/auracoil` to get GPT 5.2 Pro's analysis._\<newline>''
     @ END_MARKER"

text \<open>The only error the region parser throws.\<close>

datatype region_error = RegionMarkersNotFound

definition extractRegion :: "string \<Rightarrow> string option" where
  "extractRegion doc =
     (let beginIdx = indexOf doc BEGIN_MARKER;
          endIdx = indexOf doc END_MARKER
      in if beginIdx = - 1 \<or> endIdx = - 1 then None
         else Some (trim (substring doc (beginIdx + int (length BEGIN_MARKER)) endIdx)))"

definition replaceRegion :: "string \<Rightarrow> string \<Rightarrow> region_error + string" where
  "replaceRegion doc newContent =
     (let beginIdx = indexOf doc BEGIN_MARKER;
          endIdx = indexOf doc END_MARKER
      in if beginIdx = - 1 \<or> endIdx = - 1 then Inl RegionMarkersNotFound
         else (let before = substring doc 0 (beginIdx + int (length BEGIN_MARKER));
                   after = substringFrom doc endIdx
               in Inr (before @ ''\<newline>'' @ trim newContent @ ''\<newline>'' @ after)))"

definition ensureRegion :: "string \<Rightarrow> string" where
  "ensureRegion doc =
     (if includesStr doc BEGIN_MARKER then doc
      else trimEnd doc @ ''\<newline>\<newline>'' @ DEFAULT_REGION @ ''\<newline>'')"

text \<open>
  The number of (possibly overlapping) occurrences of \<open>pat\<close> in a string: the number of
  indices at which \<open>pat\<close> starts.
\<close>

fun countOccurrences :: "string \<Rightarrow> string \<Rightarrow> nat" where
  "countOccurrences [] pat = (if pat = [] then 1 else 0)"
| "countOccurrences (c # cs) pat =
     (if prefix pat (c # cs) then 1 else 0) + countOccurrences cs pat"

text \<open>Sample documents for the concrete checks.\<close>

definition sampleDoc :: string where
  "sampleDoc = ''# A\<newline><!-- auracoil:begin -->\<newline>old\<newline><!-- auracoil:end -->\<newline>## B\<newline>''"

definition reversedDoc :: string where
  "reversedDoc = ''<!-- auracoil:end -->y<!-- auracoil:begin -->z<!-- auracoil:end -->''"

definition strayEndDoc :: string where
  "strayEndDoc = ''<!-- auracoil:end -->\<newline><!-- auracoil:begin -->\<newline>old\<newline><!-- auracoil:end -->''"

definition appendedRegion :: string where
  "appendedRegion = ''\<newline>\<newline>'' @ DEFAULT_REGION @ ''\<newline>''"

definition twoBeginDoc :: string where
  "twoBeginDoc = ''<!-- auracoil:begin -->a<!-- auracoil:begin -->''"


section \<open>Context builder\<close>

text \<open>
  The part of the repository index the builder reads (\<open>languages\<close>, \<open>frameworks\<close>,
  \<open>structure\<close> and \<open>stats\<close> are not read by it). The index's fields carry the suffix
  \<open>_of\<close> since the bundle has buckets of the same names.
\<close>

datatype manifest_type = Npm | Cargo | Python | Go | Ruby | Unknown

record ManifestInfo =
  mtype :: manifest_type
  path :: string
  name :: "string option"
  dependencies :: "string list option"

record RepoIndex =
  entrypoints_of :: "string list"
  manifests_of :: "ManifestInfo list"
  configs_of :: "string list"
  docs_of :: "string list"

record AnalysisBundle =
  manifests :: "string list"
  entrypoints :: "string list"
  configs :: "string list"
  docs :: "string list"
  samples :: "string list"
  contentHashes :: "(string \<times> string) list"
  totalTokenEstimate :: int

text \<open>
  \<open>ContextConfig\<close>; its ceilings are JavaScript numbers, modelled as integers (they may be
  negative). \<open>Partial<ContextConfig>\<close> leaves any field out.
\<close>

record ContextConfig =
  maxFiles :: int
  maxTotalSize :: int
  maxTokens :: int
  includePatterns :: "string list"
  excludePatterns :: "string list"

record PartialContextConfig =
  maxFiles_opt :: "int option"
  maxTotalSize_opt :: "int option"
  maxTokens_opt :: "int option"
  includePatterns_opt :: "string list option"
  excludePatterns_opt :: "string list option"

definition DEFAULT_CONFIG :: ContextConfig where
  "DEFAULT_CONFIG =
     \<lparr> maxFiles = 50, maxTotalSize = 500000, maxTokens = 100000, includePatterns = [],
       excludePatterns =
         [''**/*.min.js'', ''**/*.bundle.js'', ''**/node_modules/**'', ''**/.git/**'',
          ''**/dist/**'', ''**/build/**'', ''**/coverage/**'', ''**/*.lock'',
          ''**/package-lock.json'', ''**/yarn.lock'', ''**/pnpm-lock.yaml''] \<rparr>"

text \<open>The object spread \<open>{ ...DEFAULT_CONFIG, ...config }\<close>.\<close>

definition spreadConfig :: "ContextConfig \<Rightarrow> PartialContextConfig \<Rightarrow> ContextConfig" where
  "spreadConfig d c =
     \<lparr> maxFiles = (case maxFiles_opt c of None \<Rightarrow> maxFiles d | Some v \<Rightarrow> v),
       maxTotalSize = (case maxTotalSize_opt c of None \<Rightarrow> maxTotalSize d | Some v \<Rightarrow> v),
       maxTokens = (case maxTokens_opt c of None \<Rightarrow> maxTokens d | Some v \<Rightarrow> v),
       includePatterns = (case includePatterns_opt c of None \<Rightarrow> includePatterns d | Some v \<Rightarrow> v),
       excludePatterns = (case excludePatterns_opt c of None \<Rightarrow> excludePatterns d | Some v \<Rightarrow> v) \<rparr>"

definition CHARS_PER_TOKEN :: int where
  "CHARS_PER_TOKEN = 4"

text \<open>
  The file system below the repository root, as \<open>stat\<close> and \<open>readFile\<close> see it: a relative
  path has the size in bytes \<open>stat\<close> reports and the decoded content, or is \<open>None\<close> when
  either call throws.
\<close>

record file_entry =
  fsize :: nat
  fcontent :: string

type_synonym file_system = "string \<Rightarrow> file_entry option"

text \<open>
  \<open>hashContent\<close>: the first 16 characters of the hexadecimal SHA-256 digest. The digest
  function of the \<open>crypto\<close> library is the parameter \<open>sha256hex\<close>.
\<close>

definition hashContent :: "(string \<Rightarrow> string) \<Rightarrow> string \<Rightarrow> string" where
  "hashContent sha256hex content = substring (sha256hex content) 0 16"

text \<open>
  A JavaScript \<open>Map\<close> keeps its entries in insertion order; \<open>set\<close> on a key that is
  present replaces the value in place.
\<close>

fun mapSet :: "'k \<Rightarrow> 'v \<Rightarrow> ('k \<times> 'v) list \<Rightarrow> ('k \<times> 'v) list" where
  "mapSet k v [] = [(k, v)]"
| "mapSet k v ((k', v') # m) = (if k' = k then (k, v) # m else (k', v') # mapSet k v m)"

definition mapValues :: "('k \<times> 'v) list \<Rightarrow> 'v list" where
  "mapValues m = map snd m"

definition getBundleFiles :: "AnalysisBundle \<Rightarrow> string list" where
  "getBundleFiles bundle =
     manifests bundle @ entrypoints bundle @ configs bundle @ docs bundle @ samples bundle"

definition getTotalFiles :: "AnalysisBundle \<Rightarrow> int" where
  "getTotalFiles bundle =
     int (length (manifests bundle)) + int (length (entrypoints bundle))
     + int (length (configs bundle)) + int (length (docs bundle))
     + int (length (samples bundle))"

definition getBundleHash :: "(string \<Rightarrow> string) \<Rightarrow> AnalysisBundle \<Rightarrow> string" where
  "getBundleHash sha256hex bundle =
     (let hashes = join (sort (mapValues (contentHashes bundle))) '':''
      in hashContent sha256hex hashes)"

text \<open>The five buckets, and \<open>bundle[category].push(path)\<close>.\<close>

datatype category = Manifests | Entrypoints | Configs | Docs | Samples

fun bucket :: "category \<Rightarrow> AnalysisBundle \<Rightarrow> string list" where
  "bucket Manifests b = manifests b"
| "bucket Entrypoints b = entrypoints b"
| "bucket Configs b = configs b"
| "bucket Docs b = docs b"
| "bucket Samples b = samples b"

fun push :: "category \<Rightarrow> string \<Rightarrow> AnalysisBundle \<Rightarrow> AnalysisBundle" where
  "push Manifests p b = b\<lparr>manifests := manifests b @ [p]\<rparr>"
| "push Entrypoints p b = b\<lparr>entrypoints := entrypoints b @ [p]\<rparr>"
| "push Configs p b = b\<lparr>configs := configs b @ [p]\<rparr>"
| "push Docs p b = b\<lparr>docs := docs b @ [p]\<rparr>"
| "push Samples p b = b\<lparr>samples := samples b @ [p]\<rparr>"

text \<open>
  The state the closure \<open>addFile\<close> works on: the bundle and the two running totals of
  \<open>buildAnalysisBundle\<close>.
\<close>

record builder_state =
  the_bundle :: AnalysisBundle
  currentSize :: int
  currentTokens :: int

text \<open>\<open>Math.ceil(content.length / CHARS_PER_TOKEN)\<close>.\<close>

definition tokensOf :: "string \<Rightarrow> int" where
  "tokensOf content = - ((- int (length content)) div CHARS_PER_TOKEN)"

definition addFile ::
  "(string \<Rightarrow> string) \<Rightarrow> file_system \<Rightarrow> ContextConfig \<Rightarrow> string \<Rightarrow> category
    \<Rightarrow> builder_state \<Rightarrow> bool \<times> builder_state" where
  "addFile sha256hex fs cfg p cat st =
     (case fs p of
        None \<Rightarrow> (False, st)
      | Some f \<Rightarrow>
          (let content = fcontent f;
               size = int (fsize f);
               tokens = tokensOf content
           in if currentSize st + size > maxTotalSize cfg then (False, st)
              else if currentTokens st + tokens > maxTokens cfg then (False, st)
              else if getTotalFiles (the_bundle st) \<ge> maxFiles cfg then (False, st)
              else (True,
                    \<lparr> the_bundle =
                        (push cat p (the_bundle st))
                          \<lparr> contentHashes :=
                              mapSet p (hashContent sha256hex content) (contentHashes (the_bundle st)),
                            totalTokenEstimate := currentTokens st + tokens \<rparr>,
                      currentSize = currentSize st + size,
                      currentTokens = currentTokens st + tokens \<rparr>)))"

text \<open>A loop \<open>for (const p of paths) await addFile(p, category)\<close>; the result of \<open>addFile\<close> is dropped.\<close>

fun addFiles ::
  "(string \<Rightarrow> string) \<Rightarrow> file_system \<Rightarrow> ContextConfig \<Rightarrow> category \<Rightarrow> string list
    \<Rightarrow> builder_state \<Rightarrow> builder_state" where
  "addFiles sha256hex fs cfg cat [] st = st"
| "addFiles sha256hex fs cfg cat (p # ps) st =
     addFiles sha256hex fs cfg cat ps (snd (addFile sha256hex fs cfg p cat st))"

definition docPriority :: "string list" where
  "docPriority = [''README.md'', ''ARCHITECTURE.md'', ''CONTRIBUTING.md'', ''AGENTS.md'']"

definition configPriority :: "string list" where
  "configPriority =
     [''tsconfig.json'', ''.eslintrc.json'', ''.eslintrc.js'', ''eslint.config.js'',
      ''vite.config.ts'', ''webpack.config.js'', ''.github/workflows/ci.yml'',
      ''.github/workflows/ci.yaml'', ''docker-compose.yml'']"

text \<open>
  The loops over \<open>docPriority\<close> and \<open>configPriority\<close>: the first entry of the index that
  matches the name is added, when there is one. (A match is a non-empty string here, so
  \<open>if (match)\<close> tests for \<open>undefined\<close>.)
\<close>

fun addPriorityDocs ::
  "(string \<Rightarrow> string) \<Rightarrow> file_system \<Rightarrow> ContextConfig \<Rightarrow> string list \<Rightarrow> string list
    \<Rightarrow> builder_state \<Rightarrow> builder_state" where
  "addPriorityDocs sha256hex fs cfg indexDocs [] st = st"
| "addPriorityDocs sha256hex fs cfg indexDocs (doc # rest) st =
     addPriorityDocs sha256hex fs cfg indexDocs rest
       (case find_first (\<lambda>d. toLowerCase d = toLowerCase doc) indexDocs of
          None \<Rightarrow> st
        | Some match \<Rightarrow> snd (addFile sha256hex fs cfg match Docs st))"

definition otherDocs :: "string list \<Rightarrow> string list" where
  "otherDocs indexDocs =
     filter (\<lambda>doc. \<not> list_ex (\<lambda>p. toLowerCase doc = toLowerCase p) docPriority) indexDocs"

fun addPriorityConfigs ::
  "(string \<Rightarrow> string) \<Rightarrow> file_system \<Rightarrow> ContextConfig \<Rightarrow> string list \<Rightarrow> string list
    \<Rightarrow> builder_state \<Rightarrow> builder_state" where
  "addPriorityConfigs sha256hex fs cfg indexConfigs [] st = st"
| "addPriorityConfigs sha256hex fs cfg indexConfigs (config # rest) st =
     addPriorityConfigs sha256hex fs cfg indexConfigs rest
       (case find_first (\<lambda>c. endsWith c config \<or> c = config) indexConfigs of
          None \<Rightarrow> st
        | Some match \<Rightarrow> snd (addFile sha256hex fs cfg match Configs st))"

definition architecturalPatterns :: "string list" where
  "architecturalPatterns =
     [''**/services/**/*.{ts,js}'', ''**/controllers/**/*.{ts,js}'', ''**/models/**/*.{ts,js}'',
      ''**/components/**/*.{tsx,jsx}'', ''**/hooks/**/*.{ts,tsx}'', ''**/utils/**/*.{ts,js}'',
      ''**/lib/**/*.{ts,js}'', ''**/api/**/*.{ts,js}'', ''**/routes/**/*.{ts,js}'',
      ''**/middleware/**/*.{ts,js}'']"

text \<open>
  \<open>selectRepresentativeSamples\<close>. The \<open>glob\<close> library is the parameter \<open>glob\<close>: the
  files below the repository root that match a pattern, the default excludes left out.
  Both loops leave with \<open>break\<close> once \<open>maxCount\<close> samples are taken.
\<close>

fun takeMatches :: "int \<Rightarrow> string list \<Rightarrow> string list \<Rightarrow> string list" where
  "takeMatches maxCount [] smp = smp"
| "takeMatches maxCount (m # ms) smp =
     (if int (length smp) \<ge> maxCount then smp
      else takeMatches maxCount ms (if m \<in> set smp then smp else smp @ [m]))"

fun samplePatterns ::
  "(string \<Rightarrow> string list) \<Rightarrow> int \<Rightarrow> string list \<Rightarrow> string list \<Rightarrow> string list" where
  "samplePatterns glob maxCount [] smp = smp"
| "samplePatterns glob maxCount (pattern # rest) smp =
     (if int (length smp) \<ge> maxCount then smp
      else samplePatterns glob maxCount rest (takeMatches maxCount (take 2 (glob pattern)) smp))"

definition selectRepresentativeSamples :: "(string \<Rightarrow> string list) \<Rightarrow> int \<Rightarrow> string list" where
  "selectRepresentativeSamples glob maxCount =
     (if maxCount \<le> 0 then [] else samplePatterns glob maxCount architecturalPatterns [])"

definition emptyBundle :: AnalysisBundle where
  "emptyBundle =
     \<lparr> manifests = [], entrypoints = [], configs = [], docs = [], samples = [],
       contentHashes = [], totalTokenEstimate = 0 \<rparr>"

definition buildState ::
  "(string \<Rightarrow> string) \<Rightarrow> file_system \<Rightarrow> (string \<Rightarrow> string list) \<Rightarrow> RepoIndex
    \<Rightarrow> ContextConfig \<Rightarrow> builder_state" where
  "buildState sha256hex fs glob index cfg =
     (let st0 = \<lparr> the_bundle = emptyBundle, currentSize = 0, currentTokens = 0 \<rparr>;
          st1 = addFiles sha256hex fs cfg Manifests (map path (manifests_of index)) st0;
          st2 = addPriorityDocs sha256hex fs cfg (docs_of index) docPriority st1;
          st3 = addFiles sha256hex fs cfg Docs (otherDocs (docs_of index)) st2;
          st4 = addPriorityConfigs sha256hex fs cfg (configs_of index) configPriority st3;
          st5 = addFiles sha256hex fs cfg Entrypoints (entrypoints_of index) st4;
          smp = selectRepresentativeSamples glob (maxFiles cfg - getTotalFiles (the_bundle st5))
      in addFiles sha256hex fs cfg Samples smp st5)"

definition buildAnalysisBundle ::
  "(string \<Rightarrow> string) \<Rightarrow> file_system \<Rightarrow> (string \<Rightarrow> string list) \<Rightarrow> RepoIndex
    \<Rightarrow> PartialContextConfig \<Rightarrow> AnalysisBundle" where
  "buildAnalysisBundle sha256hex fs glob index config =
     the_bundle (buildState sha256hex fs glob index (spreadConfig DEFAULT_CONFIG config))"


text \<open>
  Notions for the statements about bundles: the size, the token estimate and the content
  of the file a path names, the paths the index and the glob results offer to each bucket,
  the string \<open>getBundleHash\<close> hashes (its local \<open>hashes\<close>), and the content hashes of the
  files of a bundle, one for each path.
\<close>

definition sizeAt :: "file_system \<Rightarrow> string \<Rightarrow> int" where
  "sizeAt fs p = (case fs p of None \<Rightarrow> 0 | Some f \<Rightarrow> int (fsize f))"

definition tokensAt :: "file_system \<Rightarrow> string \<Rightarrow> int" where
  "tokensAt fs p = (case fs p of None \<Rightarrow> 0 | Some f \<Rightarrow> tokensOf (fcontent f))"


definition bundleKey :: "AnalysisBundle \<Rightarrow> string" where
  "bundleKey b = join (sort (mapValues (contentHashes b))) '':''"

definition contentAt :: "file_system \<Rightarrow> string \<Rightarrow> string" where
  "contentAt fs p = (case fs p of None \<Rightarrow> [] | Some f \<Rightarrow> fcontent f)"

definition includedHashes :: "(string \<Rightarrow> string) \<Rightarrow> file_system \<Rightarrow> AnalysisBundle \<Rightarrow> string list" where
  "includedHashes sha256hex fs b =
     map (\<lambda>p. hashContent sha256hex (contentAt fs p)) (remdups (getBundleFiles b))"

text \<open>
  The state the builder keeps between two calls of \<open>addFile\<close>, as invariants: of the
  totals, and of the map \<open>contentHashes\<close>, whose keys are the paths of the bundle, each
  with the hash of the content of its file.
\<close>

definition within_budget :: "file_system \<Rightarrow> ContextConfig \<Rightarrow> builder_state \<Rightarrow> bool" where
  "within_budget fs cfg st =
     (currentSize st = (\<Sum>p\<leftarrow>getBundleFiles (the_bundle st). sizeAt fs p)
      \<and> currentTokens st = (\<Sum>p\<leftarrow>getBundleFiles (the_bundle st). tokensAt fs p)
      \<and> totalTokenEstimate (the_bundle st) = currentTokens st
      \<and> currentSize st \<le> maxTotalSize cfg
      \<and> currentTokens st \<le> maxTokens cfg
      \<and> getTotalFiles (the_bundle st) \<le> maxFiles cfg
      \<and> list_all (\<lambda>p. fs p \<noteq> None) (getBundleFiles (the_bundle st)))"

definition hashes_recorded :: "(string \<Rightarrow> string) \<Rightarrow> file_system \<Rightarrow> AnalysisBundle \<Rightarrow> bool" where
  "hashes_recorded sha256hex fs b =
     (distinct (map fst (contentHashes b))
      \<and> set (map fst (contentHashes b)) = set (getBundleFiles b)
      \<and> list_all (\<lambda>(p, h). h = hashContent sha256hex (contentAt fs p)) (contentHashes b))"

text \<open>Sample repositories and configurations for the concrete checks.\<close>

definition sampleFs :: file_system where
  "sampleFs p =
     (if p = ''package.json'' then Some \<lparr> fsize = 2, fcontent = ''{}'' \<rparr>
      else if p = ''README.md'' then Some \<lparr> fsize = 5, fcontent = ''# Hi\<newline>'' \<rparr>
      else if p = ''src/index.ts'' then Some \<lparr> fsize = 9, fcontent = ''export {}'' \<rparr>
      else None)"

definition sampleIndex :: RepoIndex where
  "sampleIndex =
     \<lparr> entrypoints_of = [''src/index.ts''],
       manifests_of = [\<lparr> mtype = Npm, path = ''package.json'', name = None, dependencies = Some [] \<rparr>],
       configs_of = [],
       docs_of = [''README.md''] \<rparr>"

definition noGlob :: "string \<Rightarrow> string list" where
  "noGlob pattern = []"

definition twoFilesConfig :: PartialContextConfig where
  "twoFilesConfig =
     \<lparr> maxFiles_opt = Some 2, maxTotalSize_opt = None, maxTokens_opt = None,
       includePatterns_opt = None, excludePatterns_opt = None \<rparr>"

definition negativeConfig :: PartialContextConfig where
  "negativeConfig =
     \<lparr> maxFiles_opt = Some (- 1), maxTotalSize_opt = Some (- 1), maxTokens_opt = Some (- 1),
       includePatterns_opt = None, excludePatterns_opt = None \<rparr>"

definition pythonFs :: file_system where
  "pythonFs p =
     (if p = ''requirements.txt'' then Some \<lparr> fsize = 6, fcontent = ''flask\<newline>'' \<rparr> else None)"

definition pythonIndex :: RepoIndex where
  "pythonIndex =
     \<lparr> entrypoints_of = [],
       manifests_of = [\<lparr> mtype = Python, path = ''requirements.txt'', name = None, dependencies = None \<rparr>],
       configs_of = [],
       docs_of = [''requirements.txt''] \<rparr>"

definition defaultConfig :: PartialContextConfig where
  "defaultConfig =
     \<lparr> maxFiles_opt = None, maxTotalSize_opt = None, maxTokens_opt = None,
       includePatterns_opt = None, excludePatterns_opt = None \<rparr>"

definition swapFsA :: file_system where
  "swapFsA p =
     (if p = ''a.ts'' then Some \<lparr> fsize = 3, fcontent = ''foo'' \<rparr>
      else if p = ''b.ts'' then Some \<lparr> fsize = 3, fcontent = ''bar'' \<rparr>
      else None)"

definition swapFsB :: file_system where
  "swapFsB p =
     (if p = ''a.ts'' then Some \<lparr> fsize = 3, fcontent = ''bar'' \<rparr>
      else if p = ''b.ts'' then Some \<lparr> fsize = 3, fcontent = ''foo'' \<rparr>
      else None)"

definition swapIndex :: RepoIndex where
  "swapIndex =
     \<lparr> entrypoints_of = [''a.ts'', ''b.ts''], manifests_of = [], configs_of = [], docs_of = [] \<rparr>"

definition reversedIndex :: RepoIndex where
  "reversedIndex =
     \<lparr> entrypoints_of = [''b.ts'', ''a.ts''], manifests_of = [], configs_of = [], docs_of = [] \<rparr>"

definition editedFs :: file_system where
  "editedFs p =
     (if p = ''a.ts'' then Some \<lparr> fsize = 3, fcontent = ''baz'' \<rparr>
      else if p = ''b.ts'' then Some \<lparr> fsize = 3, fcontent = ''bar'' \<rparr>
      else None)"


section \<open>Regular expressions\<close>

text \<open>
  The regular expressions of the scanner, as syntax trees, and the matcher of the
  JavaScript engine for them: backtracking, with the alternatives tried in the order of
  the ECMAScript specification. \<open>Chars neg cs\<close> is a character class (negated when
  \<open>neg\<close>), \<open>Rep lo hi r\<close> the greedy quantifier \<open>r{lo,hi}\<close> (\<open>hi = None\<close>: unbounded),
  \<open>Group n r\<close> the capturing group number \<open>n\<close>, \<open>Backref n\<close> the backreference to it.
\<close>

datatype regex =
    Chars bool "char list"
  | Seq regex regex
  | Alt regex regex
  | Rep nat "nat option" regex
  | Group nat regex
  | Backref nat
  | Empty

text \<open>
  A state of the matcher: the input that is left, and the captures made so far.
\<close>

type_synonym captures = "(nat \<times> string) list"

type_synonym mstate = "string \<times> captures"

text \<open>
  \<open>Canonicalize\<close> of the specification, for code units below 256: with the flag \<open>i\<close> a
  character that has a capital (an ASCII or Latin-1 small letter) is compared as its
  capital.
\<close>

definition canonicalize :: "bool \<Rightarrow> char \<Rightarrow> char" where
  "canonicalize ignoreCase c =
     (let n = (of_char c :: nat)
      in if ignoreCase \<and> ((97 \<le> n \<and> n \<le> 122) \<or> (224 \<le> n \<and> n \<le> 254 \<and> n \<noteq> 247))
         then char_of (n - 32) else c)"

fun groupsOf :: "regex \<Rightarrow> nat list" where
  "groupsOf (Chars neg cs) = []"
| "groupsOf (Seq a b) = groupsOf a @ groupsOf b"
| "groupsOf (Alt a b) = groupsOf a @ groupsOf b"
| "groupsOf (Rep lo hi r) = groupsOf r"
| "groupsOf (Group n r) = n # groupsOf r"
| "groupsOf (Backref n) = []"
| "groupsOf Empty = []"

fun matchChar :: "bool \<Rightarrow> bool \<Rightarrow> char list \<Rightarrow> mstate \<Rightarrow> mstate list" where
  "matchChar ignoreCase neg cs ([], caps) = []"
| "matchChar ignoreCase neg cs (c # rest, caps) =
     (if (canonicalize ignoreCase c \<in> set (map (canonicalize ignoreCase) cs)) \<noteq> neg
      then [(rest, caps)] else [])"

fun matchText :: "bool \<Rightarrow> string \<Rightarrow> mstate \<Rightarrow> mstate list" where
  "matchText ignoreCase t (rest, caps) =
     (if length t \<le> length rest
         \<and> map (canonicalize ignoreCase) (take (length t) rest) = map (canonicalize ignoreCase) t
      then [(drop (length t) rest, caps)] else [])"

text \<open>
  \<open>RepeatMatcher\<close>: one more round of the body is tried before the rest of the
  expression; a round that consumes nothing is refused once the minimum is reached; the
  captures of the body are cleared before each round. The result lists every state the
  expression can end in, the one the engine finds first at the head.
\<close>

definition advances :: "nat \<Rightarrow> mstate \<Rightarrow> mstate \<Rightarrow> bool" where
  "advances lo x y = (lo \<noteq> 0 \<or> length (fst y) < length (fst x))"

definition clearCaptures :: "nat list \<Rightarrow> mstate \<Rightarrow> mstate" where
  "clearCaptures ns x = (fst x, filter (\<lambda>(n, t). n \<notin> set ns) (snd x))"

function repeatMatcher ::
  "(mstate \<Rightarrow> mstate list) \<Rightarrow> nat list \<Rightarrow> nat \<Rightarrow> nat option \<Rightarrow> mstate \<Rightarrow> mstate list" where
  "repeatMatcher f ns lo hi x =
     (if hi = Some 0 then [x]
      else concat (map (repeatMatcher f ns (lo - 1) (map_option (\<lambda>h. h - 1) hi))
                       (filter (advances lo x) (f (clearCaptures ns x))))
           @ (if lo = 0 then [x] else []))"
  by pat_completeness auto
termination
  by (relation "measures [\<lambda>(f, ns, lo, hi, x). lo, \<lambda>(f, ns, lo, hi, x). length (fst x)]")
     (auto simp: advances_def)

declare repeatMatcher.simps [simp del]

text \<open>A capturing group records the text its body consumed, in place of an older capture.\<close>

definition capture :: "nat \<Rightarrow> mstate \<Rightarrow> mstate \<Rightarrow> mstate" where
  "capture n x y =
     (fst y, (n, take (length (fst x) - length (fst y)) (fst x)) # filter (\<lambda>(k, t). k \<noteq> n) (snd y))"

primrec matcher :: "regex \<Rightarrow> bool \<Rightarrow> mstate \<Rightarrow> mstate list" where
  "matcher (Chars neg cs) ignoreCase x = matchChar ignoreCase neg cs x"
| "matcher (Seq a b) ignoreCase x = concat (map (matcher b ignoreCase) (matcher a ignoreCase x))"
| "matcher (Alt a b) ignoreCase x = matcher a ignoreCase x @ matcher b ignoreCase x"
| "matcher (Rep lo hi r) ignoreCase x = repeatMatcher (matcher r ignoreCase) (groupsOf r) lo hi x"
| "matcher (Group n r) ignoreCase x = map (capture n x) (matcher r ignoreCase x)"
| "matcher (Backref n) ignoreCase x =
     (case map_of (snd x) n of None \<Rightarrow> [x] | Some t \<Rightarrow> matchText ignoreCase t x)"
| "matcher Empty ignoreCase x = [x]"

text \<open>Shorthands for writing the expressions down.\<close>

definition charRange :: "char \<Rightarrow> char \<Rightarrow> char list" where
  "charRange lo hi = map char_of [of_char lo ..< Suc (of_char hi) :: nat]"

definition lowerCase :: "char list" where
  "lowerCase = charRange CHR ''a'' CHR ''z''"

definition upperCase :: "char list" where
  "upperCase = charRange CHR ''A'' CHR ''Z''"

definition digits :: "char list" where
  "digits = charRange CHR ''0'' CHR ''9''"

definition quotes :: "char list" where
  "quotes = [CHR 0x27, CHR 0x22]"

definition whiteSpaceChars :: "char list" where
  "whiteSpaceChars = [CHR 0x09, CHR 0x0A, CHR 0x0B, CHR 0x0C, CHR 0x0D, CHR 0x20, CHR 0xA0]"

definition lit :: "string \<Rightarrow> regex" where
  "lit s = foldr (\<lambda>c r. Seq (Chars False [c]) r) s Empty"

definition seq :: "regex list \<Rightarrow> regex" where
  "seq rs = foldr Seq rs Empty"

fun alt :: "regex list \<Rightarrow> regex" where
  "alt [] = Chars False []"
| "alt [r] = r"
| "alt (r # r' # rs) = Alt r (alt (r' # rs))"

definition oneOf :: "char list \<Rightarrow> regex" where
  "oneOf cs = Chars False cs"

definition noneOf :: "char list \<Rightarrow> regex" where
  "noneOf cs = Chars True cs"

definition zeroOrMore :: "regex \<Rightarrow> regex" where
  "zeroOrMore r = Rep 0 None r"

definition oneOrMore :: "regex \<Rightarrow> regex" where
  "oneOrMore r = Rep 1 None r"

definition optional :: "regex \<Rightarrow> regex" where
  "optional r = Rep 0 (Some 1) r"

text \<open>
  The leftmost match at or after a position: the index it starts at, the matched text
  and its captures.
\<close>

fun firstMatchFrom :: "regex \<Rightarrow> bool \<Rightarrow> string \<Rightarrow> nat \<Rightarrow> (nat \<times> string \<times> captures) option" where
  "firstMatchFrom r ignoreCase [] pos =
     (case matcher r ignoreCase ([], []) of
        [] \<Rightarrow> None
      | y # ys \<Rightarrow> Some (pos, [], snd y))"
| "firstMatchFrom r ignoreCase (c # cs) pos =
     (case matcher r ignoreCase (c # cs, []) of
        [] \<Rightarrow> firstMatchFrom r ignoreCase cs (pos + 1)
      | y # ys \<Rightarrow> Some (pos, take (length (c # cs) - length (fst y)) (c # cs), snd y))"

text \<open>
  The loop \<open>pattern.lastIndex = 0; while ((match = pattern.exec(content)) !== null)\<close> for
  a pattern with the flag \<open>g\<close>: \<open>exec\<close> searches from \<open>lastIndex\<close> and moves
  \<open>lastIndex\<close> to the end of the match. The result lists the index and the text of each
  match. An empty match at \<open>lastIndex\<close> leaves \<open>lastIndex\<close> where it is: the loop never
  ends, and the result is \<open>None\<close>.
\<close>

function execAll :: "regex \<Rightarrow> bool \<Rightarrow> string \<Rightarrow> nat \<Rightarrow> (nat \<times> string) list option" where
  "execAll r ignoreCase content lastIndex =
     (case firstMatchFrom r ignoreCase (drop lastIndex content) lastIndex of
        None \<Rightarrow> Some []
      | Some (index, matched, caps) \<Rightarrow>
          (if index + length matched \<le> lastIndex then None
           else map_option (\<lambda>ms. (index, matched) # ms)
                  (execAll r ignoreCase content (index + length matched))))"
  by pat_completeness auto
termination
proof (relation "measure (\<lambda>(r, ignoreCase, content, lastIndex). length content - lastIndex)",
    goal_cases)
  case 1
  show ?case by simp
next
  case (2 r ignoreCase content lastIndex x2 index y matched caps)
  have bound: "i + length t \<le> pos + length s"
    if "firstMatchFrom r ignoreCase s pos = Some (i, t, c)" for s pos i t c
    using that
  proof (induction s arbitrary: pos)
    case Nil
    then show ?case by (auto split: list.splits)
  next
    case (Cons a s)
    show ?case
    proof (cases "matcher r ignoreCase (a # s, [])")
      case Nil
      with Cons.prems have "firstMatchFrom r ignoreCase s (pos + 1) = Some (i, t, c)" by simp
      from Cons.IH [OF this] show ?thesis by simp
    next
      case (Cons y ys)
      with Cons.prems show ?thesis by auto
    qed
  qed
  from 2 have "firstMatchFrom r ignoreCase (drop lastIndex content) lastIndex = Some (index, matched, caps)"
    by simp
  from bound [OF this] 2 show ?case by auto
qed

declare execAll.simps [simp del]

text \<open>
  \<open>String.prototype.replace\<close> with a pattern that has the flag \<open>g\<close>: every match, from
  left to right, is replaced by the replacement, in which \<open>$n\<close> stands for capture \<open>n\<close>;
  after an empty match the search moves on by one character.
\<close>

datatype piece = Text string | GroupRef nat

fun expand :: "captures \<Rightarrow> piece list \<Rightarrow> string" where
  "expand caps [] = []"
| "expand caps (Text t # ps) = t @ expand caps ps"
| "expand caps (GroupRef n # ps) = (case map_of caps n of None \<Rightarrow> [] | Some t \<Rightarrow> t) @ expand caps ps"

function replaceAllMatches :: "regex \<Rightarrow> bool \<Rightarrow> piece list \<Rightarrow> string \<Rightarrow> string" where
  "replaceAllMatches r ignoreCase repl [] =
     (case matcher r ignoreCase ([], []) of [] \<Rightarrow> [] | y # ys \<Rightarrow> expand (snd y) repl)"
| "replaceAllMatches r ignoreCase repl (c # cs) =
     (case matcher r ignoreCase (c # cs, []) of
        [] \<Rightarrow> c # replaceAllMatches r ignoreCase repl cs
      | y # ys \<Rightarrow>
          (if length (fst y) < length (c # cs)
           then expand (snd y) repl @ replaceAllMatches r ignoreCase repl (fst y)
           else expand (snd y) repl @ c # replaceAllMatches r ignoreCase repl cs))"
  by pat_completeness auto
termination
  by (relation "measure (\<lambda>(r, ignoreCase, repl, s). length s)") auto

declare replaceAllMatches.simps [simp del]


section \<open>Secret scanner\<close>

text \<open>
  The fields \<open>file\<close> and \<open>type\<close> of an issue are \<open>file_path\<close> and \<open>secretType\<close> here.
\<close>

datatype SecretType =
  ApiKey | AwsCredentials | PrivateKey | Password | Token | ConnectionString | SensitiveFile

record SecretIssue =
  file_path :: string
  line :: nat
  secretType :: SecretType
  snippet :: string

record SecretScanResult =
  safe :: bool
  issues :: "SecretIssue list"

definition DANGEROUS_FILES :: "string list" where
  "DANGEROUS_FILES =
     [''.env'', ''.env.local'', ''.env.production'', ''.env.development'', ''.npmrc'', ''.netrc'',
      ''credentials.json'', ''secrets.json'', ''config/secrets.yml'', ''id_rsa'', ''id_ed25519'',
      ''.pem'', ''.key'', ''service-account.json'', ''gcloud-credentials.json'']"

text \<open>A rule of \<open>SECRET_PATTERNS\<close>: the expression, its flag \<open>i\<close>, and the type it reports.\<close>

record secret_pattern =
  pattern :: regex
  ignoreCase :: bool
  reports :: SecretType
  description :: string

definition assignment :: "regex list \<Rightarrow> regex" where
  "assignment names =
     seq [alt names, zeroOrMore (oneOf whiteSpaceChars), oneOf '':='',
          zeroOrMore (oneOf whiteSpaceChars)]"

definition SECRET_PATTERNS :: "secret_pattern list" where
  "SECRET_PATTERNS =
     [\<lparr> pattern =
          seq [assignment [seq [lit ''api'', optional (oneOf ''_-''), lit ''key''], lit ''apikey''],
               optional (oneOf quotes),
               Group 1 (Rep 20 None (oneOf (lowerCase @ upperCase @ digits @ ''_-''))),
               optional (oneOf quotes)],
         ignoreCase = True, reports = ApiKey, description = ''API key'' \<rparr>,
      \<lparr> pattern = seq [lit ''AKIA'', Rep 16 (Some 16) (oneOf (digits @ upperCase))],
         ignoreCase = False, reports = AwsCredentials, description = ''AWS Access Key ID'' \<rparr>,
      \<lparr> pattern =
          seq [assignment [lit ''aws_secret_access_key'', lit ''aws_secret''],
               optional (oneOf quotes),
               Group 1 (Rep 40 (Some 40) (oneOf (lowerCase @ upperCase @ digits @ ''/+=''))),
               optional (oneOf quotes)],
         ignoreCase = True, reports = AwsCredentials, description = ''AWS Secret Access Key'' \<rparr>,
      \<lparr> pattern =
          seq [lit ''-----BEGIN '',
               optional (alt [lit ''RSA '', lit ''EC '', lit ''DSA '', lit ''OPENSSH '']),
               lit ''PRIVATE KEY-----''],
         ignoreCase = False, reports = PrivateKey, description = ''Private key block'' \<rparr>,
      \<lparr> pattern =
          seq [assignment [lit ''password'', lit ''passwd'', lit ''pwd''],
               oneOf quotes, Group 1 (Rep 8 None (noneOf quotes)), optional (oneOf quotes)],
         ignoreCase = True, reports = Password, description = ''Password'' \<rparr>,
      \<lparr> pattern =
          seq [assignment [lit ''token'', lit ''bearer'', lit ''auth''],
               optional (oneOf quotes),
               Group 1 (Rep 20 None (oneOf (lowerCase @ upperCase @ digits @ ''_-.''))),
               optional (oneOf quotes)],
         ignoreCase = True, reports = Token, description = ''Auth token'' \<rparr>,
      \<lparr> pattern = seq [lit ''ghp_'', Rep 36 (Some 36) (oneOf (lowerCase @ upperCase @ digits))],
         ignoreCase = False, reports = Token, description = ''GitHub personal access token'' \<rparr>,
      \<lparr> pattern = seq [lit ''gho_'', Rep 36 (Some 36) (oneOf (lowerCase @ upperCase @ digits))],
         ignoreCase = False, reports = Token, description = ''GitHub OAuth token'' \<rparr>,
      \<lparr> pattern =
          seq [lit ''xox'', oneOf ''baprs'', lit ''-'', Rep 10 (Some 13) (oneOf digits), lit ''-'',
               oneOrMore (oneOf (lowerCase @ upperCase @ digits @ ''-''))],
         ignoreCase = False, reports = Token, description = ''Slack token'' \<rparr>,
      \<lparr> pattern =
          seq [alt [lit ''mongodb'', lit ''postgres'', lit ''mysql'', lit ''redis''], lit ''://'',
               oneOrMore (noneOf (whiteSpaceChars @ quotes)), lit '':'',
               oneOrMore (noneOf (whiteSpaceChars @ quotes)), lit ''@'',
               oneOrMore (noneOf (whiteSpaceChars @ quotes))],
         ignoreCase = True, reports = ConnectionString,
         description = ''Database connection string with credentials'' \<rparr>,
      \<lparr> pattern =
          seq [assignment [lit ''secret'', lit ''private''],
               oneOf quotes, Group 1 (Rep 16 None (noneOf quotes)), optional (oneOf quotes)],
         ignoreCase = True, reports = ApiKey, description = ''Generic secret'' \<rparr>]"

text \<open>
  \<open>path.basename\<close> (POSIX): the last segment of the path, trailing slashes dropped.
  \<open>String.prototype.split\<close> on a character and \<open>startsWith\<close>.
\<close>

definition basename :: "string \<Rightarrow> string" where
  "basename p =
     rev (takeWhile (\<lambda>c. c \<noteq> CHR ''/'') (dropWhile (\<lambda>c. c = CHR ''/'') (rev p)))"

fun split :: "string \<Rightarrow> char \<Rightarrow> string list" where
  "split [] sep = [[]]"
| "split (c # cs) sep =
     (if c = sep then [] # split cs sep
      else (case split cs sep of [] \<Rightarrow> [[c]] | w # ws \<Rightarrow> (c # w) # ws))"

definition startsWith :: "string \<Rightarrow> string \<Rightarrow> bool" where
  "startsWith s pat = prefix pat s"

definition isDangerousFile :: "string \<Rightarrow> bool" where
  "isDangerousFile filePath =
     (let fileName = toLowerCase (basename filePath)
      in if fileName \<in> set DANGEROUS_FILES then True
         else if startsWith fileName ''.env'' then True
         else if endsWith fileName ''.pem'' then True
         else if endsWith fileName ''.key'' then True
         else if includesStr fileName ''credentials'' then True
         else if includesStr fileName ''secrets'' then True
         else False)"

definition isExampleFile :: "string \<Rightarrow> string \<Rightarrow> bool" where
  "isExampleFile file content =
     (let lowerFile = toLowerCase file
      in if includesStr lowerFile ''.example'' then True
         else if includesStr lowerFile ''.template'' then True
         else if includesStr lowerFile ''.sample'' then True
         else if endsWith lowerFile ''.md'' then True
         else if includesStr content ''your-api-key-here'' then True
         else if includesStr content ''YOUR_API_KEY'' then True
         else if includesStr content ''xxx'' then True
         else False)"

definition isInComment :: "string \<Rightarrow> string \<Rightarrow> bool" where
  "isInComment ln matched =
     (let trimmed = trim ln
      in if startsWith trimmed ''//'' then True
         else if startsWith trimmed ''#'' then True
         else if startsWith trimmed ''*'' then True
         else if startsWith trimmed ''/*'' then True
         else False)"

definition placeholders :: "string list" where
  "placeholders =
     [''your-'', ''xxx'', ''placeholder'', ''example'', ''changeme'', ''replace-'', ''todo'',
      ''fixme'', ''<your'', ''${'', ''{{'']"

definition isPlaceholder :: "string \<Rightarrow> bool" where
  "isPlaceholder v = (let lower = toLowerCase v in list_ex (\<lambda>p. includesStr lower p) placeholders)"

definition secretChars :: "char list" where
  "secretChars = lowerCase @ upperCase @ digits @ ''_-/.+=''"

definition maskSecret :: "string \<Rightarrow> string" where
  "maskSecret ln =
     replaceAllMatches
       (seq [oneOf '':='', zeroOrMore (oneOf whiteSpaceChars), Rep 20 None (oneOf secretChars)])
       False [Text '': ***MASKED***'']
       (replaceAllMatches
          (seq [Group 1 (oneOf quotes), Rep 16 None (oneOf secretChars), Backref 1])
          False [GroupRef 1, Text ''***MASKED***'', GroupRef 1]
          ln)"

text \<open>
  The body of the \<open>while\<close> loop of \<open>scanContent\<close>, for the matches of one pattern in
  order. \<open>lines[lineNum - 1] || ''\<close> is the empty string when there is no such line.
\<close>

definition lineAt :: "string list \<Rightarrow> nat \<Rightarrow> string" where
  "lineAt lns n = (if n < length lns then lns ! n else [])"

fun matchIssues ::
  "string \<Rightarrow> string \<Rightarrow> string list \<Rightarrow> SecretType \<Rightarrow> (nat \<times> string) list \<Rightarrow> SecretIssue list" where
  "matchIssues f content lns t [] = []"
| "matchIssues f content lns t ((index, matched) # ms) =
     (let beforeMatch = substring content 0 (int index);
          lineNum = length (split beforeMatch CHR ''\<newline>'');
          ln = lineAt lns (lineNum - 1)
      in if isInComment ln matched then matchIssues f content lns t ms
         else if isPlaceholder matched then matchIssues f content lns t ms
         else \<lparr> file_path = f, line = lineNum, secretType = t, snippet = maskSecret (trim ln) \<rparr>
              # matchIssues f content lns t ms)"

text \<open>
  The loop over \<open>SECRET_PATTERNS\<close>; \<open>None\<close> when the loop over the matches of a pattern
  never ends.
\<close>

fun patternIssues ::
  "string \<Rightarrow> string \<Rightarrow> string list \<Rightarrow> secret_pattern list \<Rightarrow> SecretIssue list option" where
  "patternIssues f content lns [] = Some []"
| "patternIssues f content lns (p # ps) =
     (case execAll (pattern p) (ignoreCase p) content 0 of
        None \<Rightarrow> None
      | Some ms \<Rightarrow>
          map_option (\<lambda>rest. matchIssues f content lns (reports p) ms @ rest)
            (patternIssues f content lns ps))"

definition scanContent :: "string \<Rightarrow> string \<Rightarrow> SecretIssue list option" where
  "scanContent f content =
     (let lns = split content CHR ''\<newline>''
      in if isExampleFile f content then Some []
         else patternIssues f content lns SECRET_PATTERNS)"

text \<open>
  \<open>scanForSecrets\<close>: the loop over the files, then the result. The file system is the one
  of the context builder; a file that \<open>readFile\<close> cannot read is skipped.
\<close>

definition sensitiveFileIssue :: "string \<Rightarrow> SecretIssue" where
  "sensitiveFileIssue f =
     \<lparr> file_path = f, line = 0, secretType = SensitiveFile,
       snippet = ''File '' @ [CHR 0x22] @ basename f @ [CHR 0x22] @ '' should never be uploaded'' \<rparr>"

fun scanFiles :: "file_system \<Rightarrow> string list \<Rightarrow> SecretIssue list option" where
  "scanFiles fs [] = Some []"
| "scanFiles fs (f # files) =
     (if isDangerousFile f then map_option (\<lambda>rest. sensitiveFileIssue f # rest) (scanFiles fs files)
      else (case fs f of
              None \<Rightarrow> scanFiles fs files
            | Some entry \<Rightarrow>
                (case scanContent f (fcontent entry) of
                   None \<Rightarrow> None
                 | Some fileIssues \<Rightarrow> map_option (\<lambda>rest. fileIssues @ rest) (scanFiles fs files))))"

definition scanForSecrets :: "file_system \<Rightarrow> string list \<Rightarrow> SecretScanResult option" where
  "scanForSecrets fs files =
     map_option (\<lambda>found. \<lparr> safe = (found = []), issues = found \<rparr>) (scanFiles fs files)"

text \<open>Sample files for the concrete checks.\<close>

definition leakLine :: string where
  "leakLine = ''const password = '' @ [CHR 0x22] @ ''hunter2hunter2'' @ [CHR 0x22] @ '';''"

definition leakFs :: file_system where
  "leakFs p = (if p = ''config.ts'' then Some \<lparr> fsize = 34, fcontent = leakLine \<rparr> else None)"

definition exampleFs :: file_system where
  "exampleFs p =
     (if p = ''config.example.ts'' \<or> p = ''docs/setup.md'' \<or> p = ''.env.example''
      then Some \<lparr> fsize = 34, fcontent = leakLine \<rparr> else None)"


section \<open>Facts about \<open>indexOf\<close>\<close>

lemma indexOf_range: "indexOf s pat = - 1 \<or> (0 \<le> indexOf s pat \<and> indexOf s pat \<le> int (length s))"
  by (induction s) (auto simp: Let_def)

lemma indexOf_absent_iff: "indexOf s pat = - 1 \<longleftrightarrow> \<not> sublist pat s"
proof (induction s)
  case Nil
  then show ?case by auto
next
  case (Cons c cs)
  have range: "indexOf cs pat = - 1 \<or> 0 \<le> indexOf cs pat"
    using indexOf_range [of cs pat] by auto
  show ?case
  proof (cases "prefix pat (c # cs)")
    case True
    then show ?thesis by (auto dest: prefix_imp_sublist)
  next
    case False
    then have "sublist pat (c # cs) \<longleftrightarrow> sublist pat cs"
      by (simp add: sublist_Cons_right)
    with False Cons range show ?thesis by (auto simp: Let_def)
  qed
qed

lemma indexOf_found:
  assumes "indexOf s pat = int i"
  shows "prefix pat (drop i s)"
  using assms
proof (induction s arbitrary: i)
  case Nil
  then show ?case by (auto split: if_splits)
next
  case (Cons c cs)
  show ?case
  proof (cases "prefix pat (c # cs)")
    case True
    with Cons.prems show ?thesis by simp
  next
    case False
    with Cons.prems obtain j where j: "indexOf cs pat = int j" "i = Suc j"
      using indexOf_range [of cs pat]
      by (cases i) (auto simp: Let_def split: if_splits)
    with Cons.IH show ?thesis by simp
  qed
qed

lemma indexOf_first:
  assumes "indexOf s pat = int i" "j < i"
  shows "\<not> prefix pat (drop j s)"
  using assms
proof (induction s arbitrary: i j)
  case Nil
  then show ?case by (auto split: if_splits)
next
  case (Cons c cs)
  show ?case
  proof (cases "prefix pat (c # cs)")
    case True
    with Cons.prems show ?thesis by simp
  next
    case False
    with Cons.prems obtain k where k: "indexOf cs pat = int k" "i = Suc k"
      using indexOf_range [of cs pat]
      by (cases i) (auto simp: Let_def split: if_splits)
    show ?thesis
    proof (cases j)
      case 0
      with False show ?thesis by simp
    next
      case (Suc j')
      with k Cons.prems Cons.IH [of k j'] show ?thesis by simp
    qed
  qed
qed

lemma indexOf_bound:
  assumes "indexOf s pat = int i"
  shows "i + length pat \<le> length s"
proof -
  from indexOf_found [OF assms] have "length pat \<le> length (drop i s)"
    by (rule prefix_length_le)
  moreover have "i \<le> length s"
    using indexOf_range [of s pat] assms by auto
  ultimately show ?thesis by simp
qed

lemma indexOf_drop:
  assumes "indexOf s pat = int i"
  shows "drop i s = pat @ drop (i + length pat) s"
proof -
  from indexOf_found [OF assms] obtain zs where zs: "drop i s = pat @ zs"
    by (auto simp: prefix_def)
  then have "drop (length pat) (drop i s) = zs" by simp
  then have "zs = drop (i + length pat) s" by (simp add: add.commute)
  with zs show ?thesis by simp
qed

lemma occurrences_apart:
  assumes p: "prefix p (drop i s)" and q: "prefix (c # q) (drop j s)"
    and "i < j" and c: "c \<notin> set (tl p)"
  shows "i + length p \<le> j"
proof (rule ccontr)
  assume "\<not> i + length p \<le> j"
  then have k: "j - i < length p" "0 < j - i" using \<open>i < j\<close> by auto
  from p obtain zs where zs: "drop i s = p @ zs" by (auto simp: prefix_def)
  have "drop j s = drop (j - i) (drop i s)" using \<open>i < j\<close> by simp
  also have "\<dots> = drop (j - i) p @ zs" using k zs by simp
  finally have "prefix (c # q) (drop (j - i) p @ zs)" using q by simp
  moreover have "drop (j - i) p \<noteq> []" using k by simp
  ultimately have "c = hd (drop (j - i) p)"
    by (cases "drop (j - i) p") (auto simp: prefix_def)
  also have "\<dots> = p ! (j - i)" using k by (simp add: hd_drop_conv_nth)
  also have "\<dots> \<in> set (tl p)"
    using k by (cases p) (auto simp: nth_Cons split: nat.splits)
  finally show False using c by simp
qed

section \<open>Facts about \<open>substring\<close> and \<open>trim\<close>\<close>

lemma substring_nat:
  assumes "a \<le> b" "b \<le> length s"
  shows "substring s (int a) (int b) = take (b - a) (drop a s)"
  using assms by (simp add: substring_def Let_def min_def max_def nat_diff_distrib')

lemma substring_swapped:
  assumes "b \<le> a" "a \<le> length s"
  shows "substring s (int a) (int b) = take (a - b) (drop b s)"
  using assms by (simp add: substring_def Let_def min_def max_def nat_diff_distrib')

lemma substring_zero:
  assumes "b \<le> length s"
  shows "substring s 0 (int b) = take b s"
  using substring_nat [of 0 b s] assms by simp

lemma substringFrom_nat:
  assumes "a \<le> length s"
  shows "substringFrom s (int a) = drop a s"
  using substring_nat [of a "length s" s] assms by (simp add: substringFrom_def)

lemma trimEnd_prefix: "prefix (trimEnd s) s"
proof -
  have "rev s = takeWhile isWhiteSpace (rev s) @ dropWhile isWhiteSpace (rev s)" by simp
  then have "s = rev (dropWhile isWhiteSpace (rev s)) @ rev (takeWhile isWhiteSpace (rev s))"
    by (metis rev_append rev_rev_ident)
  then show ?thesis unfolding trimEnd_def prefix_def by blast
qed

lemma length_trimEnd: "length (trimEnd s) \<le> length s"
  using trimEnd_prefix by (rule prefix_length_le)

lemma length_trim: "length (trim s) \<le> length s"
proof -
  have "length (trim s) \<le> length (trimStart s)" unfolding trim_def by (rule length_trimEnd)
  also have "\<dots> \<le> length s" unfolding trimStart_def by (rule length_dropWhile_le)
  finally show ?thesis .
qed

lemma trimEnd_idem: "trimEnd (trimEnd s) = trimEnd s"
  by (simp add: trimEnd_def dropWhile_idem)

lemma trimStart_trimEnd:
  assumes "trimStart s = s"
  shows "trimStart (trimEnd s) = trimEnd s"
proof (cases "trimEnd s")
  case Nil
  then show ?thesis by (simp add: trimStart_def)
next
  case (Cons c cs)
  with trimEnd_prefix [of s] obtain zs where "s = c # cs @ zs" by (auto simp: prefix_def)
  with assms have "\<not> isWhiteSpace c"
    by (metis dropWhile_eq_Cons_conv trimStart_def)
  with Cons show ?thesis by (simp add: trimStart_def)
qed

lemma trim_idem: "trim (trim s) = trim s"
proof -
  have "trimStart (trimStart s) = trimStart s" by (simp add: trimStart_def dropWhile_idem)
  then have "trimStart (trimEnd (trimStart s)) = trimEnd (trimStart s)"
    by (rule trimStart_trimEnd)
  then show ?thesis by (simp add: trim_def trimEnd_idem)
qed

section \<open>Facts about \<open>countOccurrences\<close>\<close>

lemma countOccurrences_zero_iff: "countOccurrences s pat = 0 \<longleftrightarrow> \<not> sublist pat s"
  by (induction s) (auto simp: sublist_Cons_right)

lemma countOccurrences_append:
  assumes "\<not> sublist pat xs" and "c \<notin> set pat"
  shows "countOccurrences (xs @ c # ys) pat = countOccurrences (c # ys) pat"
  using assms(1)
proof (induction xs)
  case Nil
  then show ?case by simp
next
  case (Cons x xs)
  from Cons.prems have no: "\<not> prefix pat (x # xs)" "\<not> sublist pat xs"
    by (auto simp: sublist_Cons_right)
  have "\<not> prefix pat ((x # xs) @ c # ys)"
  proof
    assume "prefix pat ((x # xs) @ c # ys)"
    then have "prefix pat (x # xs) \<or> (\<exists>us. pat = (x # xs) @ us \<and> prefix us (c # ys))"
      by (simp only: prefix_append)
    then consider "prefix pat (x # xs)" | us where "pat = (x # xs) @ us" "prefix us (c # ys)"
      by blast
    then show False
    proof cases
      case 1
      with no show False by simp
    next
      case 2
      show False
      proof (cases us)
        case Nil
        with 2 no show False by simp
      next
        case (Cons u us')
        with 2 have "u = c" by simp
        with 2 Cons assms(2) show False by simp
      qed
    qed
  qed
  with Cons.IH no show ?case by simp
qed

section \<open>The region parser\<close>

text \<open>
  The two markers cannot overlap: each contains the character \<open><\<close> only at its start.
\<close>

lemma begin_then_end:
  assumes "indexOf doc BEGIN_MARKER = int b" "indexOf doc END_MARKER = int e" "b < e"
  shows "b + length BEGIN_MARKER \<le> e"
proof -
  have "prefix (CHR ''<'' # ''!-- auracoil:end -->'') (drop e doc)"
    using indexOf_found [OF assms(2)] by (simp add: END_MARKER_def)
  moreover have "CHR ''<'' \<notin> set (tl BEGIN_MARKER)" by (simp add: BEGIN_MARKER_def)
  ultimately show ?thesis
    using occurrences_apart [OF indexOf_found [OF assms(1)] _ assms(3)] by blast
qed

lemma end_then_begin:
  assumes "indexOf doc BEGIN_MARKER = int b" "indexOf doc END_MARKER = int e" "e < b"
  shows "e + length END_MARKER \<le> b"
proof -
  have "prefix (CHR ''<'' # ''!-- auracoil:begin -->'') (drop b doc)"
    using indexOf_found [OF assms(1)] by (simp add: BEGIN_MARKER_def)
  moreover have "CHR ''<'' \<notin> set (tl END_MARKER)" by (simp add: END_MARKER_def)
  ultimately show ?thesis
    using occurrences_apart [OF indexOf_found [OF assms(2)] _ assms(3)] by blast
qed

lemma replaceRegion_found:
  assumes b: "indexOf doc BEGIN_MARKER = int b" and e: "indexOf doc END_MARKER = int e"
  shows "replaceRegion doc newContent =
     Inr (take (b + length BEGIN_MARKER) doc @ ''\<newline>'' @ trim newContent @ ''\<newline>'' @ drop e doc)"
proof -
  have "b + length BEGIN_MARKER \<le> length doc" using indexOf_bound [OF b] .
  then have "substring doc 0 (int b + int (length BEGIN_MARKER)) = take (b + length BEGIN_MARKER) doc"
    using substring_zero [of "b + length BEGIN_MARKER" doc] by simp
  moreover have "e \<le> length doc" using indexOf_bound [OF e] by simp
  then have "substringFrom doc (int e) = drop e doc" by (rule substringFrom_nat)
  ultimately show ?thesis by (simp add: replaceRegion_def b e)
qed

lemma region_ordered:
  assumes b: "indexOf doc BEGIN_MARKER = int b" and e: "indexOf doc END_MARKER = int e"
    and "b < e"
  shows "doc = take b doc @ BEGIN_MARKER
           @ take (e - (b + length BEGIN_MARKER)) (drop (b + length BEGIN_MARKER) doc)
           @ END_MARKER @ drop (e + length END_MARKER) doc"
proof -
  let ?n = "b + length BEGIN_MARKER"
  have le: "?n \<le> e" using begin_then_end [OF assms] .
  have "drop ?n doc = take (e - ?n) (drop ?n doc) @ drop (e - ?n) (drop ?n doc)"
    by (rule append_take_drop_id [symmetric])
  also have "drop (e - ?n) (drop ?n doc) = drop e doc" using le by simp
  also have "drop e doc = END_MARKER @ drop (e + length END_MARKER) doc"
    using e by (rule indexOf_drop)
  finally have rest: "drop ?n doc = take (e - ?n) (drop ?n doc) @ END_MARKER @ drop (e + length END_MARKER) doc" .
  have "doc = take b doc @ drop b doc" by simp
  also have "drop b doc = BEGIN_MARKER @ drop ?n doc" using b by (rule indexOf_drop)
  finally show ?thesis using rest by simp
qed

lemma extractRegion_ordered:
  assumes b: "indexOf doc BEGIN_MARKER = int b" and e: "indexOf doc END_MARKER = int e"
    and "b < e"
  shows "extractRegion doc =
     Some (trim (take (e - (b + length BEGIN_MARKER)) (drop (b + length BEGIN_MARKER) doc)))"
proof -
  have "b + length BEGIN_MARKER \<le> e" using begin_then_end [OF assms] .
  moreover have "e \<le> length doc" using indexOf_bound [OF e] by simp
  ultimately have "substring doc (int (b + length BEGIN_MARKER)) (int e)
      = take (e - (b + length BEGIN_MARKER)) (drop (b + length BEGIN_MARKER) doc)"
    by (rule substring_nat)
  then show ?thesis by (simp add: extractRegion_def b e)
qed

lemma sampleDoc_begin: "indexOf sampleDoc BEGIN_MARKER = int 4"
  by (simp add: sampleDoc_def BEGIN_MARKER_def)

lemma sampleDoc_end: "indexOf sampleDoc END_MARKER = int 32"
  by (simp add: sampleDoc_def END_MARKER_def)

lemma reversedDoc_begin: "indexOf reversedDoc BEGIN_MARKER = int 22"
  by (simp add: reversedDoc_def BEGIN_MARKER_def)

lemma reversedDoc_end: "indexOf reversedDoc END_MARKER = int 0"
  by (simp add: reversedDoc_def END_MARKER_def)

lemma reversedDoc_replace:
  "replaceRegion reversedDoc ''x'' =
     Inr ''<!-- auracoil:end -->y<!-- auracoil:begin -->\<newline>x\<newline><!-- auracoil:end -->y<!-- auracoil:begin -->z<!-- auracoil:end -->''"
  unfolding replaceRegion_found [OF reversedDoc_begin reversedDoc_end]
  by (simp add: reversedDoc_def BEGIN_MARKER_def trim_def trimStart_def trimEnd_def isWhiteSpace_def)

lemma appendedRegion_count: "countOccurrences appendedRegion BEGIN_MARKER = 1"
  by (simp add: appendedRegion_def DEFAULT_REGION_def BEGIN_MARKER_def END_MARKER_def)

lemma ensureRegion_present:
  assumes "sublist BEGIN_MARKER doc"
  shows "ensureRegion doc = doc"
  using assms by (simp add: ensureRegion_def includesStr_def indexOf_absent_iff)

lemma ensureRegion_absent:
  assumes "\<not> sublist BEGIN_MARKER doc"
  shows "ensureRegion doc = trimEnd doc @ ''\<newline>\<newline>'' @ DEFAULT_REGION @ ''\<newline>''"
  using assms by (simp add: ensureRegion_def includesStr_def indexOf_absent_iff)

lemma ensureRegion_count:
  "countOccurrences (ensureRegion doc) BEGIN_MARKER =
     (if sublist BEGIN_MARKER doc then countOccurrences doc BEGIN_MARKER else 1)"
proof (cases "sublist BEGIN_MARKER doc")
  case True
  then show ?thesis by (simp add: ensureRegion_present)
next
  case False
  have "\<not> sublist BEGIN_MARKER (trimEnd doc)"
    using False trimEnd_prefix [of doc] by (meson prefix_imp_sublist sublist_order.order.trans)
  moreover have "CHR ''\<newline>'' \<notin> set BEGIN_MARKER" by (simp add: BEGIN_MARKER_def)
  ultimately have "countOccurrences (trimEnd doc @ CHR ''\<newline>'' # ''\<newline>'' @ DEFAULT_REGION @ ''\<newline>'') BEGIN_MARKER
      = countOccurrences (CHR ''\<newline>'' # ''\<newline>'' @ DEFAULT_REGION @ ''\<newline>'') BEGIN_MARKER"
    by (rule countOccurrences_append)
  with False appendedRegion_count show ?thesis
    by (simp add: ensureRegion_absent appendedRegion_def)
qed

subsection \<open>Replacement keeps the text outside the markers\<close>

text \<open>
  C1, as amended. When both markers occur and the first \<open>BEGIN\<close> precedes the first
  \<open>END\<close>, the document is \<open>pre @ BEGIN @ interior @ END @ post\<close> and
  \<open>replaceRegion\<close> returns \<open>pre @ BEGIN\<close>, a newline, the trimmed new content, a
  newline, \<open>END @ post\<close>: everything up to and including \<open>BEGIN\<close> and everything from
  \<open>END\<close> onward is kept, only the interior is replaced.
\<close>

theorem replaceRegion_frame:
  assumes "indexOf doc BEGIN_MARKER = int b" and "indexOf doc END_MARKER = int e" and "b < e"
  shows "let pre = take b doc;
             interior = take (e - (b + length BEGIN_MARKER)) (drop (b + length BEGIN_MARKER) doc);
             post = drop (e + length END_MARKER) doc
         in doc = pre @ BEGIN_MARKER @ interior @ END_MARKER @ post
            \<and> replaceRegion doc newContent =
                Inr (pre @ BEGIN_MARKER @ ''\<newline>'' @ trim newContent @ ''\<newline>''
                     @ END_MARKER @ post)"
proof -
  have "take (b + length BEGIN_MARKER) doc = take b doc @ BEGIN_MARKER"
    using indexOf_drop [OF assms(1)] by (simp add: take_add)
  moreover have "drop e doc = END_MARKER @ drop (e + length END_MARKER) doc"
    using assms(2) by (rule indexOf_drop)
  ultimately show ?thesis
    using replaceRegion_found [OF assms(1,2), of newContent] region_ordered [OF assms]
    by (simp add: Let_def)
qed

theorem replaceRegion_frame_witness:
  "indexOf sampleDoc BEGIN_MARKER = 4 \<and> indexOf sampleDoc END_MARKER = 32
   \<and> replaceRegion sampleDoc ''  new '' =
       Inr ''# A\<newline><!-- auracoil:begin -->\<newline>new\<newline><!-- auracoil:end -->\<newline>## B\<newline>''"
proof -
  have "(4::nat) < 32" by simp
  from replaceRegion_frame [OF sampleDoc_begin sampleDoc_end this, of "''  new ''"]
  have "replaceRegion sampleDoc ''  new '' =
       Inr ''# A\<newline><!-- auracoil:begin -->\<newline>new\<newline><!-- auracoil:end -->\<newline>## B\<newline>''"
    by (simp add: Let_def sampleDoc_def BEGIN_MARKER_def END_MARKER_def trim_def trimStart_def
        trimEnd_def isWhiteSpace_def)
  with sampleDoc_begin sampleDoc_end show ?thesis by simp
qed

text \<open>
  C1 as stated, for every document that contains both markers, fails when an \<open>END\<close>
  marker precedes the first \<open>BEGIN\<close>: the result is not the document with its interior
  replaced, whichever way the document is cut at a \<open>BEGIN\<close> and a later \<open>END\<close>.
\<close>

theorem replaceRegion_frame_counterexample:
  "sublist BEGIN_MARKER reversedDoc \<and> sublist END_MARKER reversedDoc
   \<and> replaceRegion reversedDoc ''x'' =
       Inr ''<!-- auracoil:end -->y<!-- auracoil:begin -->\<newline>x\<newline><!-- auracoil:end -->y<!-- auracoil:begin -->z<!-- auracoil:end -->''
   \<and> \<not> (\<exists>pre interior post.
          reversedDoc = pre @ BEGIN_MARKER @ interior @ END_MARKER @ post
          \<and> replaceRegion reversedDoc ''x'' =
              Inr (pre @ BEGIN_MARKER @ ''\<newline>'' @ trim ''x'' @ ''\<newline>'' @ END_MARKER @ post))"
proof -
  have "indexOf reversedDoc BEGIN_MARKER \<noteq> - 1" "indexOf reversedDoc END_MARKER \<noteq> - 1"
    using reversedDoc_begin reversedDoc_end by simp_all
  then have present: "sublist BEGIN_MARKER reversedDoc" "sublist END_MARKER reversedDoc"
    unfolding indexOf_absent_iff by simp_all
  have "False" if doc: "reversedDoc = pre @ BEGIN_MARKER @ interior @ END_MARKER @ post"
    and res: "replaceRegion reversedDoc ''x'' =
              Inr (pre @ BEGIN_MARKER @ ''\<newline>'' @ trim ''x'' @ ''\<newline>'' @ END_MARKER @ post)"
    for pre interior post
  proof -
    from doc have "length reversedDoc = length (pre @ BEGIN_MARKER @ interior @ END_MARKER @ post)"
      by simp
    then have l1: "length pre + length post \<le> 23"
      by (simp add: reversedDoc_def BEGIN_MARKER_def END_MARKER_def)
    from res [unfolded reversedDoc_replace]
    have "length ''<!-- auracoil:end -->y<!-- auracoil:begin -->\<newline>x\<newline><!-- auracoil:end -->y<!-- auracoil:begin -->z<!-- auracoil:end -->''
        = length (pre @ BEGIN_MARKER @ ''\<newline>'' @ trim ''x'' @ ''\<newline>'' @ END_MARKER @ post)"
      by simp
    then have "length pre + length post \<ge> 60"
      using length_trim [of "''x''"] by (simp add: BEGIN_MARKER_def END_MARKER_def)
    with l1 show False by simp
  qed
  then have "\<not> (\<exists>pre interior post.
          reversedDoc = pre @ BEGIN_MARKER @ interior @ END_MARKER @ post
          \<and> replaceRegion reversedDoc ''x'' =
              Inr (pre @ BEGIN_MARKER @ ''\<newline>'' @ trim ''x'' @ ''\<newline>'' @ END_MARKER @ post))"
    by blast
  with present reversedDoc_replace show ?thesis by blast
qed

subsection \<open>Extracting and replacing again\<close>

text \<open>
  C2, as amended. When both markers occur and the first \<open>BEGIN\<close> precedes the first
  \<open>END\<close>, \<open>extractRegion\<close> returns the trimmed interior, and replacing the region by
  it gives the document with the interior replaced by a newline, the trimmed interior and a
  newline, identical everywhere else; it gives the document itself when the interior
  already has that form.
\<close>

theorem region_round_trip:
  assumes "indexOf doc BEGIN_MARKER = int b" and "indexOf doc END_MARKER = int e" and "b < e"
  shows "let pre = take b doc;
             interior = take (e - (b + length BEGIN_MARKER)) (drop (b + length BEGIN_MARKER) doc);
             post = drop (e + length END_MARKER) doc
         in doc = pre @ BEGIN_MARKER @ interior @ END_MARKER @ post
            \<and> extractRegion doc = Some (trim interior)
            \<and> replaceRegion doc (trim interior) =
                Inr (pre @ BEGIN_MARKER @ ''\<newline>'' @ trim interior @ ''\<newline>''
                     @ END_MARKER @ post)
            \<and> (interior = ''\<newline>'' @ trim interior @ ''\<newline>''
                 \<longrightarrow> replaceRegion doc (trim interior) = Inr doc)"
proof -
  let ?pre = "take b doc"
  let ?interior = "take (e - (b + length BEGIN_MARKER)) (drop (b + length BEGIN_MARKER) doc)"
  let ?post = "drop (e + length END_MARKER) doc"
  have doc: "doc = ?pre @ BEGIN_MARKER @ ?interior @ END_MARKER @ ?post"
    using assms by (rule region_ordered)
  have "take (b + length BEGIN_MARKER) doc = ?pre @ BEGIN_MARKER"
    using indexOf_drop [OF assms(1)] by (simp add: take_add)
  moreover have "drop e doc = END_MARKER @ ?post"
    using assms(2) by (rule indexOf_drop)
  ultimately have res: "replaceRegion doc (trim ?interior) =
      Inr (?pre @ BEGIN_MARKER @ ''\<newline>'' @ trim ?interior @ ''\<newline>'' @ END_MARKER @ ?post)"
    using replaceRegion_found [OF assms(1,2), of "trim ?interior"] by (simp add: trim_idem)
  have "replaceRegion doc (trim ?interior) = Inr doc"
    if "?interior = ''\<newline>'' @ trim ?interior @ ''\<newline>''"
  proof -
    have "?pre @ BEGIN_MARKER @ (''\<newline>'' @ trim ?interior @ ''\<newline>'') @ END_MARKER @ ?post = doc"
      using doc that by simp
    with res show ?thesis by simp
  qed
  with doc res extractRegion_ordered [OF assms] show ?thesis by (simp add: Let_def)
qed

theorem region_round_trip_witness:
  "indexOf sampleDoc BEGIN_MARKER = 4 \<and> indexOf sampleDoc END_MARKER = 32
   \<and> extractRegion sampleDoc = Some ''old''
   \<and> replaceRegion sampleDoc ''old'' = Inr sampleDoc"
proof -
  have "(4::nat) < 32" by simp
  from region_round_trip [OF sampleDoc_begin sampleDoc_end this]
  have "extractRegion sampleDoc = Some ''old'' \<and> replaceRegion sampleDoc ''old'' = Inr sampleDoc"
    by (simp add: Let_def sampleDoc_def BEGIN_MARKER_def END_MARKER_def trim_def trimStart_def
        trimEnd_def isWhiteSpace_def)
  with sampleDoc_begin sampleDoc_end show ?thesis by simp
qed

text \<open>
  C2 as stated fails for a document with a stray \<open>END\<close> marker before a well-formed
  region whose interior is already normalised: the round trip does not give the document
  back.
\<close>

theorem region_round_trip_counterexample:
  "sublist BEGIN_MARKER strayEndDoc \<and> sublist END_MARKER strayEndDoc
   \<and> strayEndDoc = ''<!-- auracoil:end -->\<newline>'' @ BEGIN_MARKER @ ''\<newline>old\<newline>'' @ END_MARKER
   \<and> ''\<newline>old\<newline>'' = ''\<newline>'' @ trim ''\<newline>old\<newline>'' @ ''\<newline>''
   \<and> extractRegion strayEndDoc = Some ''<!-- auracoil:end -->\<newline><!-- auracoil:begin -->''
   \<and> replaceRegion strayEndDoc ''<!-- auracoil:end -->\<newline><!-- auracoil:begin -->'' =
       Inr (''<!-- auracoil:end -->\<newline><!-- auracoil:begin -->'' @ ''\<newline>''
            @ ''<!-- auracoil:end -->\<newline><!-- auracoil:begin -->'' @ ''\<newline>'' @ strayEndDoc)
   \<and> replaceRegion strayEndDoc ''<!-- auracoil:end -->\<newline><!-- auracoil:begin -->'' \<noteq> Inr strayEndDoc"
proof -
  have b: "indexOf strayEndDoc BEGIN_MARKER = int 22"
    by (simp add: strayEndDoc_def BEGIN_MARKER_def)
  have e: "indexOf strayEndDoc END_MARKER = int 0"
    by (simp add: strayEndDoc_def END_MARKER_def)
  have "indexOf strayEndDoc BEGIN_MARKER \<noteq> - 1" "indexOf strayEndDoc END_MARKER \<noteq> - 1"
    using b e by simp_all
  then have present: "sublist BEGIN_MARKER strayEndDoc" "sublist END_MARKER strayEndDoc"
    unfolding indexOf_absent_iff by simp_all
  have shape: "strayEndDoc = ''<!-- auracoil:end -->\<newline>'' @ BEGIN_MARKER @ ''\<newline>old\<newline>'' @ END_MARKER"
    by (simp add: strayEndDoc_def BEGIN_MARKER_def END_MARKER_def)
  have normal: "''\<newline>old\<newline>'' = ''\<newline>'' @ trim ''\<newline>old\<newline>'' @ ''\<newline>''"
    by (simp add: trim_def trimStart_def trimEnd_def isWhiteSpace_def)
  have ext: "extractRegion strayEndDoc = Some ''<!-- auracoil:end -->\<newline><!-- auracoil:begin -->''"
    unfolding extractRegion_def b e
    by (simp add: substring_def strayEndDoc_def BEGIN_MARKER_def trim_def trimStart_def trimEnd_def
        isWhiteSpace_def)
  have rep: "replaceRegion strayEndDoc ''<!-- auracoil:end -->\<newline><!-- auracoil:begin -->'' =
       Inr (''<!-- auracoil:end -->\<newline><!-- auracoil:begin -->'' @ ''\<newline>''
            @ ''<!-- auracoil:end -->\<newline><!-- auracoil:begin -->'' @ ''\<newline>'' @ strayEndDoc)"
    unfolding replaceRegion_found [OF b e]
    by (simp add: strayEndDoc_def BEGIN_MARKER_def trim_def trimStart_def trimEnd_def isWhiteSpace_def)
  have neq: "replaceRegion strayEndDoc ''<!-- auracoil:end -->\<newline><!-- auracoil:begin -->'' \<noteq> Inr strayEndDoc"
    unfolding rep by simp
  from present shape normal ext rep neq show ?thesis by blast
qed

subsection \<open>Missing markers\<close>

text \<open>
  C7. When either sentinel marker does not occur in the document, \<open>replaceRegion\<close>
  throws the markers-not-found error for every new content: it returns no document at
  all, so nothing is appended and nothing is modified.
\<close>

theorem replaceRegion_missing:
  assumes "\<not> sublist BEGIN_MARKER doc \<or> \<not> sublist END_MARKER doc"
  shows "replaceRegion doc newContent = Inl RegionMarkersNotFound"
  using assms by (auto simp: replaceRegion_def indexOf_absent_iff)

theorem replaceRegion_missing_witness:
  "\<not> sublist BEGIN_MARKER ''# Just a doc''
   \<and> replaceRegion ''# Just a doc'' ''new'' = Inl RegionMarkersNotFound"
proof -
  have "indexOf ''# Just a doc'' BEGIN_MARKER = - 1"
    by (simp add: BEGIN_MARKER_def)
  then have absent: "\<not> sublist BEGIN_MARKER ''# Just a doc''"
    unfolding indexOf_absent_iff .
  then have "\<not> sublist BEGIN_MARKER ''# Just a doc'' \<or> \<not> sublist END_MARKER ''# Just a doc''"
    by (rule disjI1)
  from absent replaceRegion_missing [OF this, of "''new''"] show ?thesis by simp
qed

subsection \<open>Ensuring the region\<close>

text \<open>
  C8, as amended. \<open>ensureRegion\<close> is idempotent; it returns the document unchanged when
  \<open>BEGIN\<close> occurs in it (whether or not \<open>END\<close> does); and for every document with at
  most one \<open>BEGIN\<close> marker, applying it twice gives a document with exactly one
  \<open>BEGIN\<close> marker.
\<close>

theorem ensureRegion_idempotent:
  "ensureRegion (ensureRegion doc) = ensureRegion doc
   \<and> (sublist BEGIN_MARKER doc \<longrightarrow> ensureRegion doc = doc)
   \<and> (countOccurrences doc BEGIN_MARKER \<le> 1
        \<longrightarrow> countOccurrences (ensureRegion (ensureRegion doc)) BEGIN_MARKER = 1)"
proof -
  have "countOccurrences (ensureRegion doc) BEGIN_MARKER \<noteq> 0"
    using countOccurrences_zero_iff [of doc BEGIN_MARKER]
    by (cases "sublist BEGIN_MARKER doc") (simp_all add: ensureRegion_count)
  then have "sublist BEGIN_MARKER (ensureRegion doc)"
    by (simp add: countOccurrences_zero_iff)
  then have idem: "ensureRegion (ensureRegion doc) = ensureRegion doc"
    by (rule ensureRegion_present)
  have cnt: "countOccurrences (ensureRegion doc) BEGIN_MARKER = 1"
    if "countOccurrences doc BEGIN_MARKER \<le> 1"
  proof (cases "sublist BEGIN_MARKER doc")
    case True
    then have "countOccurrences doc BEGIN_MARKER \<noteq> 0" by (simp add: countOccurrences_zero_iff)
    with that True show ?thesis by (simp add: ensureRegion_count)
  next
    case False
    then show ?thesis by (simp add: ensureRegion_count)
  qed
  have pres: "sublist BEGIN_MARKER doc \<longrightarrow> ensureRegion doc = doc"
    using ensureRegion_present by blast
  from idem pres cnt show ?thesis by simp
qed

theorem ensureRegion_idempotent_witness:
  "\<not> sublist BEGIN_MARKER ''# Doc\<newline>\<newline>'' \<and> countOccurrences ''# Doc\<newline>\<newline>'' BEGIN_MARKER = 0
   \<and> ensureRegion ''# Doc\<newline>\<newline>'' = ''# Doc'' @ ''\<newline>\<newline>'' @ DEFAULT_REGION @ ''\<newline>''
   \<and> ensureRegion (ensureRegion ''# Doc\<newline>\<newline>'') = ensureRegion ''# Doc\<newline>\<newline>''
   \<and> countOccurrences (ensureRegion (ensureRegion ''# Doc\<newline>\<newline>'')) BEGIN_MARKER = 1
   \<and> sublist BEGIN_MARKER sampleDoc \<and> countOccurrences sampleDoc BEGIN_MARKER = 1
   \<and> ensureRegion sampleDoc = sampleDoc
   \<and> countOccurrences (ensureRegion (ensureRegion sampleDoc)) BEGIN_MARKER = 1"
proof -
  have c0: "countOccurrences ''# Doc\<newline>\<newline>'' BEGIN_MARKER = 0"
    by (simp add: BEGIN_MARKER_def)
  then have a0: "\<not> sublist BEGIN_MARKER ''# Doc\<newline>\<newline>''"
    unfolding countOccurrences_zero_iff .
  have e0: "ensureRegion ''# Doc\<newline>\<newline>'' = ''# Doc'' @ ''\<newline>\<newline>'' @ DEFAULT_REGION @ ''\<newline>''"
    unfolding ensureRegion_absent [OF a0] by (simp add: trimEnd_def isWhiteSpace_def)
  have c1: "countOccurrences sampleDoc BEGIN_MARKER = 1"
    by (simp add: sampleDoc_def BEGIN_MARKER_def)
  then have "countOccurrences sampleDoc BEGIN_MARKER \<noteq> 0" by simp
  then have a1: "sublist BEGIN_MARKER sampleDoc"
    unfolding countOccurrences_zero_iff by simp
  have le0: "countOccurrences ''# Doc\<newline>\<newline>'' BEGIN_MARKER \<le> 1"
    using c0 by linarith
  from ensureRegion_idempotent [of "''# Doc\<newline>\<newline>''"] le0
  have r0: "ensureRegion (ensureRegion ''# Doc\<newline>\<newline>'') = ensureRegion ''# Doc\<newline>\<newline>''"
    "countOccurrences (ensureRegion (ensureRegion ''# Doc\<newline>\<newline>'')) BEGIN_MARKER = 1"
    by blast+
  have le1: "countOccurrences sampleDoc BEGIN_MARKER \<le> 1"
    using c1 by linarith
  from ensureRegion_idempotent [of sampleDoc] a1 le1
  have r1: "ensureRegion sampleDoc = sampleDoc"
    "countOccurrences (ensureRegion (ensureRegion sampleDoc)) BEGIN_MARKER = 1"
    by blast+
  from c0 a0 e0 r0 c1 a1 r1 show ?thesis by blast
qed

text \<open>
  C8 as stated, for every document, fails for a document that already holds two
  \<open>BEGIN\<close> markers: it is returned unchanged, with both.
\<close>

theorem ensureRegion_idempotent_counterexample:
  "ensureRegion (ensureRegion twoBeginDoc) = twoBeginDoc
   \<and> countOccurrences (ensureRegion (ensureRegion twoBeginDoc)) BEGIN_MARKER = 2"
proof -
  have c: "countOccurrences twoBeginDoc BEGIN_MARKER = 2"
    by (simp add: twoBeginDoc_def BEGIN_MARKER_def)
  then have "countOccurrences twoBeginDoc BEGIN_MARKER \<noteq> 0" by simp
  then have "sublist BEGIN_MARKER twoBeginDoc"
    unfolding countOccurrences_zero_iff by simp
  then have "ensureRegion twoBeginDoc = twoBeginDoc" by (rule ensureRegion_present)
  with c show ?thesis by simp
qed

subsection \<open>An END marker before the BEGIN marker\<close>

text \<open>
  C10. When the first \<open>END\<close> marker precedes the first \<open>BEGIN\<close> marker,
  \<open>replaceRegion\<close> raises no error: it returns the prefix of the document through the end
  of \<open>BEGIN\<close>, a newline, the trimmed new content, a newline, and the suffix of the document
  from \<open>END\<close>. The span from \<open>END\<close> through \<open>BEGIN\<close> is in both parts, so it
  appears twice in the result.
\<close>

theorem replaceRegion_end_before_begin:
  assumes "indexOf doc END_MARKER = int e" and "indexOf doc BEGIN_MARKER = int b" and "e < b"
  shows "let pre = take e doc;
             span = take (b + length BEGIN_MARKER - e) (drop e doc);
             post = drop (b + length BEGIN_MARKER) doc
         in doc = pre @ span @ post
            \<and> prefix END_MARKER span \<and> suffix BEGIN_MARKER span
            \<and> take (b + length BEGIN_MARKER) doc = pre @ span
            \<and> drop e doc = span @ post
            \<and> replaceRegion doc newContent =
                Inr (pre @ span @ ''\<newline>'' @ trim newContent @ ''\<newline>'' @ span @ post)"
proof -
  let ?n = "b + length BEGIN_MARKER"
  let ?span = "take (?n - e) (drop e doc)"
  have le: "e + length END_MARKER \<le> b" using end_then_begin [OF assms(2,1,3)] .
  have n: "?n \<le> length doc" using indexOf_bound [OF assms(2)] .
  have "take (e + (?n - e)) doc = take e doc @ ?span" by (rule take_add)
  then have front: "take ?n doc = take e doc @ ?span" using le by simp
  have "drop e doc = ?span @ drop (?n - e) (drop e doc)"
    by (rule append_take_drop_id [symmetric])
  then have rear: "drop e doc = ?span @ drop ?n doc" using le by simp
  have whole: "doc = take e doc @ ?span @ drop ?n doc"
    using rear by (metis append_take_drop_id)
  have "prefix END_MARKER (drop e doc)" using assms(1) by (rule indexOf_found)
  moreover have "prefix ?span (drop e doc)" using rear by (metis prefixI)
  moreover have "length END_MARKER \<le> length ?span" using le n by simp
  ultimately have pre: "prefix END_MARKER ?span" by (rule prefix_length_prefix)
  have "take ?n doc = take b doc @ BEGIN_MARKER"
    using indexOf_drop [OF assms(2)] by (simp add: take_add)
  with front have "take e doc @ ?span = take b doc @ BEGIN_MARKER" by simp
  then have "drop e (take e doc @ ?span) = drop e (take b doc @ BEGIN_MARKER)" by simp
  moreover have "e \<le> length doc" "e \<le> b" "b \<le> length doc" using le n by simp_all
  ultimately have "?span = drop e (take b doc) @ BEGIN_MARKER" by simp
  then have suf: "suffix BEGIN_MARKER ?span" by (metis suffixI)
  show ?thesis
    using whole pre suf front rear replaceRegion_found [OF assms(2,1), of newContent]
    by (simp add: Let_def)
qed

theorem replaceRegion_end_before_begin_witness:
  "indexOf reversedDoc END_MARKER = 0 \<and> indexOf reversedDoc BEGIN_MARKER = 22
   \<and> replaceRegion reversedDoc ''new'' =
       Inr (''<!-- auracoil:end -->y<!-- auracoil:begin -->'' @ ''\<newline>new\<newline>''
            @ ''<!-- auracoil:end -->y<!-- auracoil:begin -->'' @ ''z<!-- auracoil:end -->'')"
proof -
  have "(0::nat) < 22" by simp
  from replaceRegion_end_before_begin [OF reversedDoc_end reversedDoc_begin this, of "''new''"]
  have "replaceRegion reversedDoc ''new'' =
       Inr (''<!-- auracoil:end -->y<!-- auracoil:begin -->'' @ ''\<newline>new\<newline>''
            @ ''<!-- auracoil:end -->y<!-- auracoil:begin -->'' @ ''z<!-- auracoil:end -->'')"
    by (simp add: Let_def reversedDoc_def BEGIN_MARKER_def END_MARKER_def trim_def trimStart_def
        trimEnd_def isWhiteSpace_def)
  with reversedDoc_begin reversedDoc_end show ?thesis by simp
qed

section \<open>The context builder\<close>

subsection \<open>The budget\<close>

lemma getBundleFiles_push:
  "mset (getBundleFiles (push cat p b)) = add_mset p (mset (getBundleFiles b))"
  by (cases cat) (simp_all add: getBundleFiles_def)

lemma getTotalFiles_push: "getTotalFiles (push cat p b) = getTotalFiles b + 1"
  by (cases cat) (simp_all add: getTotalFiles_def)

lemma getBundleFiles_update [simp]:
  "getBundleFiles (b\<lparr>contentHashes := h, totalTokenEstimate := t\<rparr>) = getBundleFiles b"
  by (simp add: getBundleFiles_def)

lemma getTotalFiles_update [simp]:
  "getTotalFiles (b\<lparr>contentHashes := h, totalTokenEstimate := t\<rparr>) = getTotalFiles b"
  by (simp add: getTotalFiles_def)

lemma sum_list_mset_cong:
  assumes "mset xs = mset ys"
  shows "(\<Sum>x\<leftarrow>xs. (f x :: int)) = (\<Sum>x\<leftarrow>ys. f x)"
proof -
  have "sum_mset (image_mset f (mset xs)) = sum_mset (image_mset f (mset ys))"
    using assms by simp
  then show ?thesis by (simp add: sum_mset_sum_list flip: mset_map)
qed

lemma sum_getBundleFiles_push:
  "(\<Sum>x\<leftarrow>getBundleFiles (push cat p b). (f x :: int)) = (\<Sum>x\<leftarrow>getBundleFiles b. f x) + f p"
proof -
  have "mset (getBundleFiles (push cat p b)) = mset (getBundleFiles b @ [p])"
    by (simp add: getBundleFiles_push)
  from sum_list_mset_cong [OF this, of f] show ?thesis by simp
qed

lemma set_getBundleFiles_push:
  "set (getBundleFiles (push cat p b)) = insert p (set (getBundleFiles b))"
  using getBundleFiles_push [of cat p b] by (metis set_mset_add_mset_insert set_mset_mset)

lemma addFile_rejects:
  assumes "fs p = Some f"
    and "currentSize st + int (fsize f) > maxTotalSize cfg
         \<or> currentTokens st + tokensOf (fcontent f) > maxTokens cfg
         \<or> getTotalFiles (the_bundle st) \<ge> maxFiles cfg"
  shows "addFile sha256hex fs cfg p cat st = (False, st)"
  using assms by (auto simp: addFile_def Let_def)

lemma addFile_within_budget:
  assumes "within_budget fs cfg st"
  shows "within_budget fs cfg (snd (addFile sha256hex fs cfg p cat st))"
proof (cases "fs p")
  case None
  with assms show ?thesis by (simp add: addFile_def)
next
  case (Some f)
  show ?thesis
  proof (cases "fst (addFile sha256hex fs cfg p cat st)")
    case False
    with Some have "snd (addFile sha256hex fs cfg p cat st) = st"
      by (auto simp: addFile_def Let_def split: if_splits)
    with assms show ?thesis by simp
  next
    case True
    with Some have ok: "currentSize st + int (fsize f) \<le> maxTotalSize cfg"
      "currentTokens st + tokensOf (fcontent f) \<le> maxTokens cfg"
      "getTotalFiles (the_bundle st) < maxFiles cfg"
      by (auto simp: addFile_def Let_def split: if_splits)
    with Some have res: "snd (addFile sha256hex fs cfg p cat st) =
        \<lparr> the_bundle = (push cat p (the_bundle st))
            \<lparr> contentHashes := mapSet p (hashContent sha256hex (fcontent f)) (contentHashes (the_bundle st)),
              totalTokenEstimate := currentTokens st + tokensOf (fcontent f) \<rparr>,
          currentSize = currentSize st + int (fsize f),
          currentTokens = currentTokens st + tokensOf (fcontent f) \<rparr>"
      by (auto simp: addFile_def Let_def)
    have at: "sizeAt fs p = int (fsize f)" "tokensAt fs p = tokensOf (fcontent f)"
      using Some by (simp_all add: sizeAt_def tokensAt_def)
    from assms ok Some show ?thesis
      unfolding res within_budget_def
      by (simp add: sum_getBundleFiles_push getTotalFiles_push set_getBundleFiles_push
          at list_all_iff)
  qed
qed

lemma addFiles_within_budget:
  assumes "within_budget fs cfg st"
  shows "within_budget fs cfg (addFiles sha256hex fs cfg cat ps st)"
  using assms by (induction ps arbitrary: st) (simp_all add: addFile_within_budget)

lemma addPriorityDocs_within_budget:
  assumes "within_budget fs cfg st"
  shows "within_budget fs cfg (addPriorityDocs sha256hex fs cfg ds names st)"
  using assms
  by (induction names arbitrary: st) (simp_all add: addFile_within_budget split: option.splits)

lemma addPriorityConfigs_within_budget:
  assumes "within_budget fs cfg st"
  shows "within_budget fs cfg (addPriorityConfigs sha256hex fs cfg cs names st)"
  using assms
  by (induction names arbitrary: st) (simp_all add: addFile_within_budget split: option.splits)

lemma buildState_within_budget:
  assumes "0 \<le> maxFiles cfg" "0 \<le> maxTotalSize cfg" "0 \<le> maxTokens cfg"
  shows "within_budget fs cfg (buildState sha256hex fs glob index cfg)"
proof -
  have "within_budget fs cfg \<lparr> the_bundle = emptyBundle, currentSize = 0, currentTokens = 0 \<rparr>"
    using assms by (simp add: within_budget_def emptyBundle_def getBundleFiles_def getTotalFiles_def)
  then show ?thesis
    unfolding buildState_def Let_def
    by (intro addFiles_within_budget addPriorityDocs_within_budget addPriorityConfigs_within_budget)
qed

lemma toLowerCase_ascii [simp]:
  "toLowerCase ''README.md'' = ''readme.md''"
  "toLowerCase ''ARCHITECTURE.md'' = ''architecture.md''"
  "toLowerCase ''CONTRIBUTING.md'' = ''contributing.md''"
  "toLowerCase ''AGENTS.md'' = ''agents.md''"
  by code_simp+

lemma sample_bundle:
  "buildAnalysisBundle sha256hex sampleFs noGlob sampleIndex twoFilesConfig =
     \<lparr> manifests = [''package.json''], entrypoints = [], configs = [], docs = [''README.md''],
       samples = [],
       contentHashes = [(''package.json'', hashContent sha256hex ''{}''),
                        (''README.md'', hashContent sha256hex ''# Hi\<newline>'')],
       totalTokenEstimate = 3 \<rparr>"
  by (simp add: buildAnalysisBundle_def buildState_def spreadConfig_def DEFAULT_CONFIG_def
      twoFilesConfig_def sampleIndex_def sampleFs_def noGlob_def addFile_def Let_def
      docPriority_def configPriority_def otherDocs_def selectRepresentativeSamples_def
      architecturalPatterns_def emptyBundle_def getTotalFiles_def tokensOf_def
      CHARS_PER_TOKEN_def)

lemma negative_bundle:
  "buildAnalysisBundle sha256hex sampleFs noGlob sampleIndex negativeConfig = emptyBundle"
  by (simp add: buildAnalysisBundle_def buildState_def spreadConfig_def DEFAULT_CONFIG_def
      negativeConfig_def sampleIndex_def sampleFs_def noGlob_def addFile_def Let_def
      docPriority_def configPriority_def otherDocs_def selectRepresentativeSamples_def
      architecturalPatterns_def emptyBundle_def getTotalFiles_def tokensOf_def
      CHARS_PER_TOKEN_def)

text \<open>
  C3, as amended. For every configuration whose three ceilings are not negative, and
  every index and file system, the bundle \<open>buildAnalysisBundle\<close> returns keeps all three
  ceilings: the byte sizes of its files sum to at most \<open>maxTotalSize\<close>, its file count is at
  most \<open>maxFiles\<close>, and \<open>totalTokenEstimate\<close>, which is the sum of the token estimates
  of its files, is at most \<open>maxTokens\<close>. Every file of the bundle was readable. A candidate
  that would pass a ceiling is skipped: \<open>addFile\<close> returns \<open>false\<close> and leaves the state as
  it was.
\<close>

theorem buildAnalysisBundle_within_budget:
  assumes "cfg = spreadConfig DEFAULT_CONFIG config"
    and "0 \<le> maxFiles cfg" and "0 \<le> maxTotalSize cfg" and "0 \<le> maxTokens cfg"
    and "b = buildAnalysisBundle sha256hex fs glob index config"
  shows "(\<Sum>p\<leftarrow>getBundleFiles b. sizeAt fs p) \<le> maxTotalSize cfg
     \<and> getTotalFiles b \<le> maxFiles cfg
     \<and> totalTokenEstimate b = (\<Sum>p\<leftarrow>getBundleFiles b. tokensAt fs p)
     \<and> totalTokenEstimate b \<le> maxTokens cfg
     \<and> list_all (\<lambda>p. fs p \<noteq> None) (getBundleFiles b)
     \<and> (fs p = Some f
          \<and> (currentSize st + int (fsize f) > maxTotalSize cfg
              \<or> currentTokens st + tokensOf (fcontent f) > maxTokens cfg
              \<or> getTotalFiles (the_bundle st) \<ge> maxFiles cfg)
         \<longrightarrow> addFile sha256hex fs cfg p cat st = (False, st))"
proof -
  have "within_budget fs cfg (buildState sha256hex fs glob index cfg)"
    using assms(2-4) by (rule buildState_within_budget)
  then show ?thesis
    unfolding assms(5) buildAnalysisBundle_def assms(1) [symmetric] within_budget_def
    using addFile_rejects [where fs = fs and p = p and f = f and st = st and cfg = cfg
        and ?sha256hex = sha256hex and cat = cat]
    by auto
qed

theorem buildAnalysisBundle_within_budget_witness:
  "\<forall>sha256hex.
     maxFiles (spreadConfig DEFAULT_CONFIG twoFilesConfig) = 2
     \<and> getBundleFiles (buildAnalysisBundle sha256hex sampleFs noGlob sampleIndex twoFilesConfig)
         = [''package.json'', ''README.md'']
     \<and> (\<Sum>p\<leftarrow>[''package.json'', ''README.md'']. sizeAt sampleFs p) \<le> 500000
     \<and> getTotalFiles (buildAnalysisBundle sha256hex sampleFs noGlob sampleIndex twoFilesConfig) \<le> 2
     \<and> totalTokenEstimate (buildAnalysisBundle sha256hex sampleFs noGlob sampleIndex twoFilesConfig) = 3
     \<and> totalTokenEstimate (buildAnalysisBundle sha256hex sampleFs noGlob sampleIndex twoFilesConfig)
         \<le> 100000"
proof
  fix sha256hex
  let ?cfg = "spreadConfig DEFAULT_CONFIG twoFilesConfig"
  let ?b = "buildAnalysisBundle sha256hex sampleFs noGlob sampleIndex twoFilesConfig"
  have cfg: "maxFiles ?cfg = 2" "maxTotalSize ?cfg = 500000" "maxTokens ?cfg = 100000"
    by (simp_all add: spreadConfig_def DEFAULT_CONFIG_def twoFilesConfig_def)
  have files: "getBundleFiles ?b = [''package.json'', ''README.md'']"
    by (simp add: sample_bundle getBundleFiles_def)
  have tokens: "totalTokenEstimate ?b = 3"
    by (simp add: sample_bundle)
  have "0 \<le> maxFiles ?cfg" "0 \<le> maxTotalSize ?cfg" "0 \<le> maxTokens ?cfg"
    by (simp_all add: cfg)
  from buildAnalysisBundle_within_budget [OF refl this refl, where fs = sampleFs
      and ?sha256hex = sha256hex and glob = noGlob and index = sampleIndex]
  have "(\<Sum>p\<leftarrow>getBundleFiles ?b. sizeAt sampleFs p) \<le> maxTotalSize ?cfg"
    "getTotalFiles ?b \<le> maxFiles ?cfg" "totalTokenEstimate ?b \<le> maxTokens ?cfg"
    by blast+
  then show "maxFiles ?cfg = 2 \<and> getBundleFiles ?b = [''package.json'', ''README.md'']
     \<and> (\<Sum>p\<leftarrow>[''package.json'', ''README.md'']. sizeAt sampleFs p) \<le> 500000
     \<and> getTotalFiles ?b \<le> 2 \<and> totalTokenEstimate ?b = 3 \<and> totalTokenEstimate ?b \<le> 100000"
    unfolding cfg files using cfg files tokens by simp
qed

text \<open>
  C3 as stated, for every configuration, fails when a ceiling is negative: the bundle is
  empty, and its count, size and token estimate of 0 are above the ceilings.
\<close>

theorem buildAnalysisBundle_within_budget_counterexample:
  "\<forall>sha256hex.
     maxFiles (spreadConfig DEFAULT_CONFIG negativeConfig) = - 1
     \<and> maxTotalSize (spreadConfig DEFAULT_CONFIG negativeConfig) = - 1
     \<and> maxTokens (spreadConfig DEFAULT_CONFIG negativeConfig) = - 1
     \<and> getBundleFiles (buildAnalysisBundle sha256hex sampleFs noGlob sampleIndex negativeConfig) = []
     \<and> getTotalFiles (buildAnalysisBundle sha256hex sampleFs noGlob sampleIndex negativeConfig) = 0
     \<and> totalTokenEstimate (buildAnalysisBundle sha256hex sampleFs noGlob sampleIndex negativeConfig) = 0
     \<and> \<not> getTotalFiles (buildAnalysisBundle sha256hex sampleFs noGlob sampleIndex negativeConfig)
           \<le> maxFiles (spreadConfig DEFAULT_CONFIG negativeConfig)
     \<and> \<not> totalTokenEstimate (buildAnalysisBundle sha256hex sampleFs noGlob sampleIndex negativeConfig)
           \<le> maxTokens (spreadConfig DEFAULT_CONFIG negativeConfig)
     \<and> \<not> (\<Sum>p\<leftarrow>getBundleFiles (buildAnalysisBundle sha256hex sampleFs noGlob sampleIndex negativeConfig).
              sizeAt sampleFs p)
           \<le> maxTotalSize (spreadConfig DEFAULT_CONFIG negativeConfig)"
proof
  fix sha256hex
  let ?cfg = "spreadConfig DEFAULT_CONFIG negativeConfig"
  let ?b = "buildAnalysisBundle sha256hex sampleFs noGlob sampleIndex negativeConfig"
  have cfg: "maxFiles ?cfg = - 1" "maxTotalSize ?cfg = - 1" "maxTokens ?cfg = - 1"
    by (simp_all add: spreadConfig_def DEFAULT_CONFIG_def negativeConfig_def)
  have b: "getBundleFiles ?b = []" "getTotalFiles ?b = 0" "totalTokenEstimate ?b = 0"
    unfolding negative_bundle by (simp_all add: emptyBundle_def getBundleFiles_def getTotalFiles_def)
  show "maxFiles ?cfg = - 1 \<and> maxTotalSize ?cfg = - 1 \<and> maxTokens ?cfg = - 1
     \<and> getBundleFiles ?b = [] \<and> getTotalFiles ?b = 0 \<and> totalTokenEstimate ?b = 0
     \<and> \<not> getTotalFiles ?b \<le> maxFiles ?cfg
     \<and> \<not> totalTokenEstimate ?b \<le> maxTokens ?cfg
     \<and> \<not> (\<Sum>p\<leftarrow>getBundleFiles ?b. sizeAt sampleFs p) \<le> maxTotalSize ?cfg"
    unfolding cfg b by simp
qed

subsection \<open>The buckets\<close>

lemma bucket_update [simp]:
  "bucket c (b\<lparr>contentHashes := h, totalTokenEstimate := t\<rparr>) = bucket c b"
  by (cases c) simp_all













lemma toLowerCase_requirements [simp]: "toLowerCase ''requirements.txt'' = ''requirements.txt''"
  by code_simp




subsection \<open>The bundle hash\<close>

lemma mapSet_keys: "set (map fst (mapSet k v m)) = insert k (set (map fst m))"
proof (induction m)
  case Nil
  then show ?case by simp
next
  case (Cons e m)
  obtain k' v' where e: "e = (k', v')" by (cases e)
  from Cons show ?case unfolding e by (cases "k' = k") auto
qed

lemma mapSet_distinct: "distinct (map fst m) \<Longrightarrow> distinct (map fst (mapSet k v m))"
proof (induction m)
  case Nil
  then show ?case by simp
next
  case (Cons e m)
  obtain k' v' where e: "e = (k', v')" by (cases e)
  from Cons mapSet_keys [of k v m] show ?case unfolding e by auto
qed

lemma mapSet_entries: "set (mapSet k v m) \<subseteq> insert (k, v) (set m)"
  by (induction m) (auto split: if_splits)

lemma addFile_hashes_recorded:
  assumes "hashes_recorded sha256hex fs (the_bundle st)"
  shows "hashes_recorded sha256hex fs (the_bundle (snd (addFile sha256hex fs cfg p cat st)))"
proof (cases "fs p")
  case None
  with assms show ?thesis by (simp add: addFile_def)
next
  case (Some f)
  show ?thesis
  proof (cases "fst (addFile sha256hex fs cfg p cat st)")
    case False
    with Some have "snd (addFile sha256hex fs cfg p cat st) = st"
      by (auto simp: addFile_def Let_def split: if_splits)
    with assms show ?thesis by simp
  next
    case True
    with Some have res: "the_bundle (snd (addFile sha256hex fs cfg p cat st)) =
        (push cat p (the_bundle st))
          \<lparr> contentHashes := mapSet p (hashContent sha256hex (fcontent f)) (contentHashes (the_bundle st)),
            totalTokenEstimate := currentTokens st + tokensOf (fcontent f) \<rparr>"
      by (auto simp: addFile_def Let_def split: if_splits)
    have at: "contentAt fs p = fcontent f" using Some by (simp add: contentAt_def)
    let ?m = "contentHashes (the_bundle st)"
    let ?v = "hashContent sha256hex (fcontent f)"
    from assms have d: "distinct (map fst ?m)"
      and k: "set (map fst ?m) = set (getBundleFiles (the_bundle st))"
      and v: "list_all (\<lambda>(p, h). h = hashContent sha256hex (contentAt fs p)) ?m"
      by (simp_all add: hashes_recorded_def)
    have "distinct (map fst (mapSet p ?v ?m))" using d by (rule mapSet_distinct)
    moreover have "set (map fst (mapSet p ?v ?m)) = insert p (set (getBundleFiles (the_bundle st)))"
      using k by (simp only: mapSet_keys)
    moreover have "list_all (\<lambda>(p, h). h = hashContent sha256hex (contentAt fs p)) (mapSet p ?v ?m)"
      using v mapSet_entries [of p ?v ?m] at by (auto simp: list_all_iff)
    ultimately show ?thesis
      unfolding res hashes_recorded_def by (simp add: set_getBundleFiles_push)
  qed
qed

lemma addFiles_hashes_recorded:
  assumes "hashes_recorded sha256hex fs (the_bundle st)"
  shows "hashes_recorded sha256hex fs (the_bundle (addFiles sha256hex fs cfg cat ps st))"
  using assms by (induction ps arbitrary: st) (simp_all add: addFile_hashes_recorded)

lemma addPriorityDocs_hashes_recorded:
  assumes "hashes_recorded sha256hex fs (the_bundle st)"
  shows "hashes_recorded sha256hex fs (the_bundle (addPriorityDocs sha256hex fs cfg ds names st))"
  using assms
  by (induction names arbitrary: st) (simp_all add: addFile_hashes_recorded split: option.splits)

lemma addPriorityConfigs_hashes_recorded:
  assumes "hashes_recorded sha256hex fs (the_bundle st)"
  shows "hashes_recorded sha256hex fs (the_bundle (addPriorityConfigs sha256hex fs cfg cs names st))"
  using assms
  by (induction names arbitrary: st) (simp_all add: addFile_hashes_recorded split: option.splits)

lemma buildAnalysisBundle_hashes_recorded:
  "hashes_recorded sha256hex fs (buildAnalysisBundle sha256hex fs glob index config)"
proof -
  have "hashes_recorded sha256hex fs
      (the_bundle \<lparr> the_bundle = emptyBundle, currentSize = 0, currentTokens = 0 \<rparr>)"
    by (simp add: hashes_recorded_def emptyBundle_def getBundleFiles_def)
  then show ?thesis
    unfolding buildAnalysisBundle_def buildState_def Let_def
    by (intro addFiles_hashes_recorded addPriorityDocs_hashes_recorded
        addPriorityConfigs_hashes_recorded)
qed

lemma hashes_recorded_values:
  assumes "hashes_recorded sha256hex fs b"
  shows "mset (mapValues (contentHashes b)) = mset (includedHashes sha256hex fs b)"
proof -
  let ?g = "\<lambda>p. hashContent sha256hex (contentAt fs p)"
  from assms have d: "distinct (map fst (contentHashes b))"
    and k: "set (map fst (contentHashes b)) = set (getBundleFiles b)"
    and v: "list_all (\<lambda>(p, h). h = ?g p) (contentHashes b)"
    by (simp_all add: hashes_recorded_def)
  from v have vals: "map snd (contentHashes b) = map ?g (map fst (contentHashes b))"
    by (auto simp: list_all_iff)
  have "mset (map fst (contentHashes b)) = mset (remdups (getBundleFiles b))"
    using set_eq_iff_mset_eq_distinct [OF d distinct_remdups, of "getBundleFiles b"] k by simp
  then have "mset (map ?g (map fst (contentHashes b))) = mset (map ?g (remdups (getBundleFiles b)))"
    by (metis mset_map)
  then show ?thesis unfolding mapValues_def includedHashes_def vals .
qed

lemma sort_mset_cong:
  fixes xs ys :: "'a::linorder list"
  assumes "mset xs = mset ys"
  shows "sort xs = sort ys"
  by (rule properties_for_sort) (simp_all add: assms)

lemma split_at_first:
  assumes "c \<notin> set x" and "c \<notin> set y" and "x @ c # r = y @ c # r'"
  shows "x = y \<and> r = r'"
  using assms
proof (induction x arbitrary: y)
  case Nil
  then show ?case by (cases y) auto
next
  case (Cons a x)
  then show ?case by (cases y) auto
qed

lemma join_inject:
  assumes "length xs = length ys"
    and "\<forall>x \<in> set xs \<union> set ys. c \<notin> set x"
    and "join xs [c] = join ys [c]"
  shows "xs = ys"
  using assms
proof (induction xs ys rule: list_induct2)
  case Nil
  then show ?case by simp
next
  case (Cons x xs y ys)
  show ?case
  proof (cases xs)
    case Nil
    with Cons show ?thesis by simp
  next
    case xs: (Cons x' xs')
    with Cons.hyps obtain y' ys' where ys: "ys = y' # ys'" by (cases ys) auto
    from Cons.prems(1) have "c \<notin> set x" "c \<notin> set y" by auto
    moreover from Cons.prems(2) xs ys have "x @ c # join xs [c] = y @ c # join ys [c]"
      by simp
    ultimately have "x = y" "join xs [c] = join ys [c]"
      using split_at_first [of c x y "join xs [c]" "join ys [c]"] by blast+
    with Cons show ?thesis by simp
  qed
qed

lemma join_separators:
  assumes "\<forall>x \<in> set xs. c \<notin> set x"
  shows "count_list (join xs [c]) c = length xs - 1"
  using assms by (induction xs "[c]" rule: join.induct) simp_all

lemma join_inject_any:
  assumes colon: "\<forall>x \<in> set xs \<union> set ys. c \<notin> set x"
    and eq: "join xs [c] = join ys [c]"
    and size: "length xs = length ys \<or> [] \<notin> set xs \<union> set ys"
  shows "xs = ys"
proof -
  have "length xs = length ys"
  proof (rule ccontr)
    assume ne: "length xs \<noteq> length ys"
    with size have nonempty: "[] \<notin> set xs \<union> set ys" by simp
    have "count_list (join xs [c]) c = length xs - 1" "count_list (join ys [c]) c = length ys - 1"
      using colon by (simp_all add: join_separators)
    with eq have "length xs - 1 = length ys - 1" by simp
    with ne consider "xs = []" "length ys = 1" | "ys = []" "length xs = 1"
      by (cases xs; cases ys) auto
    then show False
    proof cases
      case 1
      then obtain y where "ys = [y]" by (cases ys) auto
      with 1 eq nonempty show False by simp
    next
      case 2
      then obtain x where "xs = [x]" by (cases xs) auto
      with 2 eq nonempty show False by simp
    qed
  qed
  then show ?thesis using colon eq by (rule join_inject)
qed

lemma getBundleHash_key: "getBundleHash sha256hex b = hashContent sha256hex (bundleKey b)"
  by (simp add: getBundleHash_def bundleKey_def)

lemma bundleKey_values:
  assumes "mset (mapValues (contentHashes b)) = mset (mapValues (contentHashes b'))"
  shows "bundleKey b = bundleKey b'"
  using sort_mset_cong [OF assms] by (simp add: bundleKey_def)

lemma bundleKey_differs:
  assumes colon: "\<forall>h \<in> set (mapValues (contentHashes b) @ mapValues (contentHashes b')). c \<notin> set h"
    and size: "length (mapValues (contentHashes b')) = length (mapValues (contentHashes b))
               \<or> [] \<notin> set (mapValues (contentHashes b) @ mapValues (contentHashes b'))"
    and ne: "mset (mapValues (contentHashes b')) \<noteq> mset (mapValues (contentHashes b))"
    and c: "c = CHR '':''"
  shows "bundleKey b' \<noteq> bundleKey b"
proof
  assume eq: "bundleKey b' = bundleKey b"
  let ?xs = "sort (mapValues (contentHashes b'))"
  let ?ys = "sort (mapValues (contentHashes b))"
  have "join ?xs [c] = join ?ys [c]" using eq by (simp add: bundleKey_def c)
  moreover have "\<forall>x \<in> set ?xs \<union> set ?ys. c \<notin> set x" using colon by auto
  moreover have "length ?xs = length ?ys \<or> [] \<notin> set ?xs \<union> set ?ys" using size by auto
  ultimately have "?xs = ?ys" by (intro join_inject_any [where c = c])
  then have "mset ?xs = mset ?ys" by simp
  with ne show False by simp
qed

lemma mset_remdups_set:
  assumes "set xs = set ys"
  shows "mset (remdups xs) = mset (remdups ys)"
  using assms by (simp add: set_eq_iff_mset_eq_distinct [symmetric])

lemma image_mset_differs:
  assumes "p \<in># M" and "\<forall>q \<in># M. q \<noteq> p \<longrightarrow> g' q = g q" and "g' p \<noteq> g p"
    and "count M p = 1"
  shows "image_mset g' M \<noteq> image_mset g M"
proof -
  obtain N where M: "M = add_mset p N" using assms(1) by (meson multi_member_split)
  with assms(4) have notin: "p \<notin># N" by (simp add: count_eq_zero_iff)
  then have "\<forall>q \<in># N. g' q = g q" using assms(2) M by auto
  then have N: "image_mset g' N = image_mset g N" by (intro image_mset_cong) simp
  show ?thesis unfolding M using N assms(3) by simp
qed

lemma swap_bundle_A:
  "buildAnalysisBundle sha256hex swapFsA noGlob swapIndex defaultConfig =
     \<lparr> manifests = [], entrypoints = [''a.ts'', ''b.ts''], configs = [], docs = [], samples = [],
       contentHashes = [(''a.ts'', hashContent sha256hex ''foo''),
                        (''b.ts'', hashContent sha256hex ''bar'')],
       totalTokenEstimate = 2 \<rparr>"
  by (simp add: buildAnalysisBundle_def buildState_def spreadConfig_def DEFAULT_CONFIG_def
      defaultConfig_def swapIndex_def swapFsA_def noGlob_def addFile_def Let_def
      docPriority_def configPriority_def otherDocs_def selectRepresentativeSamples_def
      architecturalPatterns_def emptyBundle_def getTotalFiles_def tokensOf_def
      CHARS_PER_TOKEN_def)

lemma swap_bundle_B:
  "buildAnalysisBundle sha256hex swapFsB noGlob swapIndex defaultConfig =
     \<lparr> manifests = [], entrypoints = [''a.ts'', ''b.ts''], configs = [], docs = [], samples = [],
       contentHashes = [(''a.ts'', hashContent sha256hex ''bar''),
                        (''b.ts'', hashContent sha256hex ''foo'')],
       totalTokenEstimate = 2 \<rparr>"
  by (simp add: buildAnalysisBundle_def buildState_def spreadConfig_def DEFAULT_CONFIG_def
      defaultConfig_def swapIndex_def swapFsB_def noGlob_def addFile_def Let_def
      docPriority_def configPriority_def otherDocs_def selectRepresentativeSamples_def
      architecturalPatterns_def emptyBundle_def getTotalFiles_def tokensOf_def
      CHARS_PER_TOKEN_def)

lemma reversed_bundle:
  "buildAnalysisBundle sha256hex swapFsA noGlob reversedIndex defaultConfig =
     \<lparr> manifests = [], entrypoints = [''b.ts'', ''a.ts''], configs = [], docs = [], samples = [],
       contentHashes = [(''b.ts'', hashContent sha256hex ''bar''),
                        (''a.ts'', hashContent sha256hex ''foo'')],
       totalTokenEstimate = 2 \<rparr>"
  by (simp add: buildAnalysisBundle_def buildState_def spreadConfig_def DEFAULT_CONFIG_def
      defaultConfig_def reversedIndex_def swapFsA_def noGlob_def addFile_def Let_def
      docPriority_def configPriority_def otherDocs_def selectRepresentativeSamples_def
      architecturalPatterns_def emptyBundle_def getTotalFiles_def tokensOf_def
      CHARS_PER_TOKEN_def)

lemma edited_bundle:
  "buildAnalysisBundle sha256hex editedFs noGlob swapIndex defaultConfig =
     \<lparr> manifests = [], entrypoints = [''a.ts'', ''b.ts''], configs = [], docs = [], samples = [],
       contentHashes = [(''a.ts'', hashContent sha256hex ''baz''),
                        (''b.ts'', hashContent sha256hex ''bar'')],
       totalTokenEstimate = 2 \<rparr>"
  by (simp add: buildAnalysisBundle_def buildState_def spreadConfig_def DEFAULT_CONFIG_def
      defaultConfig_def swapIndex_def editedFs_def noGlob_def addFile_def Let_def
      docPriority_def configPriority_def otherDocs_def selectRepresentativeSamples_def
      architecturalPatterns_def emptyBundle_def getTotalFiles_def tokensOf_def
      CHARS_PER_TOKEN_def)

lemma python_bundle:
  "buildAnalysisBundle sha256hex pythonFs noGlob pythonIndex defaultConfig =
     \<lparr> manifests = [''requirements.txt''], entrypoints = [], configs = [],
       docs = [''requirements.txt''], samples = [],
       contentHashes = [(''requirements.txt'', hashContent sha256hex ''flask\<newline>'')],
       totalTokenEstimate = 4 \<rparr>"
  by (simp add: buildAnalysisBundle_def buildState_def spreadConfig_def DEFAULT_CONFIG_def
      defaultConfig_def pythonIndex_def pythonFs_def noGlob_def addFile_def Let_def
      docPriority_def configPriority_def otherDocs_def selectRepresentativeSamples_def
      architecturalPatterns_def emptyBundle_def getTotalFiles_def tokensOf_def
      CHARS_PER_TOKEN_def)

text \<open>
  C9, as amended. \<open>getBundleHash\<close> hashes the recorded content hashes, sorted and joined
  with a colon, so it is the same for two bundles that record the same content hashes up
  to order. The string that is hashed differs for two bundles whose recorded content
  hashes differ as multisets, when no content hash holds a colon and either as many
  hashes are recorded in both or none is empty (as for 16 hexadecimal digits); so the
  result differs unless the digest collides. A bundle built by \<open>buildAnalysisBundle\<close>
  records one content hash for each path it includes (a path added to two buckets is
  recorded once). So two built bundles that include the same files with the same contents
  have the same hash, in whichever order and to whichever buckets the files were added;
  and when, between two built bundles of the same files, the content of one file changes
  to one with another content hash, the string that is hashed changes.
\<close>

theorem getBundleHash_order:
  assumes "B = buildAnalysisBundle sha256hex fs glob index config"
    and "B' = buildAnalysisBundle sha256hex fs' glob' index' config'"
  shows "getBundleHash sha256hex b = hashContent sha256hex (bundleKey b)
     \<and> (mset (mapValues (contentHashes b')) = mset (mapValues (contentHashes b))
        \<longrightarrow> getBundleHash sha256hex b' = getBundleHash sha256hex b)
     \<and> ((\<forall>h \<in> set (mapValues (contentHashes b) @ mapValues (contentHashes b')). CHR '':'' \<notin> set h)
          \<and> (length (mapValues (contentHashes b')) = length (mapValues (contentHashes b))
              \<or> [] \<notin> set (mapValues (contentHashes b) @ mapValues (contentHashes b')))
          \<and> mset (mapValues (contentHashes b')) \<noteq> mset (mapValues (contentHashes b))
        \<longrightarrow> bundleKey b' \<noteq> bundleKey b)
     \<and> mset (mapValues (contentHashes B)) = mset (includedHashes sha256hex fs B)
     \<and> (set (getBundleFiles B') = set (getBundleFiles B)
          \<and> (\<forall>q \<in> set (getBundleFiles B). contentAt fs' q = contentAt fs q)
        \<longrightarrow> getBundleHash sha256hex B' = getBundleHash sha256hex B)
     \<and> (set (getBundleFiles B') = set (getBundleFiles B) \<and> p \<in> set (getBundleFiles B)
          \<and> (\<forall>q \<in> set (getBundleFiles B). q \<noteq> p \<longrightarrow> contentAt fs' q = contentAt fs q)
          \<and> hashContent sha256hex (contentAt fs' p) \<noteq> hashContent sha256hex (contentAt fs p)
          \<and> (\<forall>q \<in> set (getBundleFiles B).
                CHR '':'' \<notin> set (hashContent sha256hex (contentAt fs q))
                \<and> CHR '':'' \<notin> set (hashContent sha256hex (contentAt fs' q)))
        \<longrightarrow> bundleKey B' \<noteq> bundleKey B)"
proof -
  let ?g = "\<lambda>p. hashContent sha256hex (contentAt fs p)"
  let ?g' = "\<lambda>p. hashContent sha256hex (contentAt fs' p)"
  have rec: "mset (mapValues (contentHashes B)) = mset (includedHashes sha256hex fs B)"
    unfolding assms(1) by (intro hashes_recorded_values buildAnalysisBundle_hashes_recorded)
  have rec': "mset (mapValues (contentHashes B')) = mset (includedHashes sha256hex fs' B')"
    unfolding assms(2) by (intro hashes_recorded_values buildAnalysisBundle_hashes_recorded)
  have same: "getBundleHash sha256hex b' = getBundleHash sha256hex b"
    if "mset (mapValues (contentHashes b')) = mset (mapValues (contentHashes b))" for b b'
  proof -
    from that have "bundleKey b' = bundleKey b" by (rule bundleKey_values)
    then show ?thesis unfolding getBundleHash_key by (rule arg_cong)
  qed
  have differs: "bundleKey b' \<noteq> bundleKey b"
    if "\<forall>h \<in> set (mapValues (contentHashes b) @ mapValues (contentHashes b')). CHR '':'' \<notin> set h"
      and "length (mapValues (contentHashes b')) = length (mapValues (contentHashes b))
           \<or> [] \<notin> set (mapValues (contentHashes b) @ mapValues (contentHashes b'))"
      and "mset (mapValues (contentHashes b')) \<noteq> mset (mapValues (contentHashes b))"
    for b b'
    using that by (rule bundleKey_differs [OF _ _ _ refl])
  have order: "getBundleHash sha256hex B' = getBundleHash sha256hex B"
    if files: "set (getBundleFiles B') = set (getBundleFiles B)"
      and contents: "\<forall>q \<in> set (getBundleFiles B). contentAt fs' q = contentAt fs q"
  proof -
    have "mset (remdups (getBundleFiles B')) = mset (remdups (getBundleFiles B))"
      using files by (rule mset_remdups_set)
    then have "mset (map ?g' (remdups (getBundleFiles B'))) = mset (map ?g' (remdups (getBundleFiles B)))"
      by (metis mset_map)
    moreover have "map ?g' (remdups (getBundleFiles B)) = map ?g (remdups (getBundleFiles B))"
      using contents by simp
    ultimately have "mset (includedHashes sha256hex fs' B') = mset (includedHashes sha256hex fs B)"
      by (simp add: includedHashes_def)
    with rec rec' have "mset (mapValues (contentHashes B')) = mset (mapValues (contentHashes B))"
      by simp
    then show ?thesis by (rule same)
  qed
  have one: "bundleKey B' \<noteq> bundleKey B"
    if files: "set (getBundleFiles B') = set (getBundleFiles B)"
      and p: "p \<in> set (getBundleFiles B)"
      and others: "\<forall>q \<in> set (getBundleFiles B). q \<noteq> p \<longrightarrow> contentAt fs' q = contentAt fs q"
      and changed: "hashContent sha256hex (contentAt fs' p) \<noteq> hashContent sha256hex (contentAt fs p)"
      and colon: "\<forall>q \<in> set (getBundleFiles B). CHR '':'' \<notin> set (?g q) \<and> CHR '':'' \<notin> set (?g' q)"
  proof -
    let ?M = "mset (remdups (getBundleFiles B))"
    have M': "mset (remdups (getBundleFiles B')) = ?M"
      using files by (rule mset_remdups_set)
    have inc: "mset (includedHashes sha256hex fs B) = image_mset ?g ?M"
      "mset (includedHashes sha256hex fs' B') = image_mset ?g' ?M"
      unfolding includedHashes_def mset_map M' by simp_all
    have "p \<in># ?M" using p by simp
    moreover have "\<forall>q \<in># ?M. q \<noteq> p \<longrightarrow> ?g' q = ?g q" using others by simp
    moreover have "count ?M p = 1"
      using p distinct_remdups [of "getBundleFiles B"] by (metis distinct_count_atmost_1 set_remdups)
    ultimately have "image_mset ?g' ?M \<noteq> image_mset ?g ?M"
      using changed by (intro image_mset_differs [where p = p]) simp_all
    then have ne: "mset (mapValues (contentHashes B')) \<noteq> mset (mapValues (contentHashes B))"
      by (simp add: inc rec rec')
    have "size (mset (mapValues (contentHashes B'))) = size (mset (mapValues (contentHashes B)))"
      unfolding rec rec' inc by simp
    then have len: "length (mapValues (contentHashes B')) = length (mapValues (contentHashes B))"
      by simp
    have "set_mset (mset (mapValues (contentHashes B))) = ?g ` set (getBundleFiles B)"
      "set_mset (mset (mapValues (contentHashes B'))) = ?g' ` set (getBundleFiles B)"
      unfolding rec rec' inc by simp_all
    then have "set (mapValues (contentHashes B)) = ?g ` set (getBundleFiles B)"
      "set (mapValues (contentHashes B')) = ?g' ` set (getBundleFiles B)"
      by simp_all
    with colon
    have "\<forall>h \<in> set (mapValues (contentHashes B) @ mapValues (contentHashes B')). CHR '':'' \<notin> set h"
      by auto
    with len ne show ?thesis by (intro differs) simp_all
  qed
  from rec getBundleHash_key [of sha256hex b] same [of b' b] differs [of b b'] order one
  show ?thesis by blast
qed

theorem getBundleHash_order_witness:
  "contentHashes (buildAnalysisBundle (\<lambda>c. c) swapFsA noGlob swapIndex defaultConfig)
     = [(''a.ts'', ''foo''), (''b.ts'', ''bar'')]
   \<and> contentHashes (buildAnalysisBundle (\<lambda>c. c) swapFsA noGlob reversedIndex defaultConfig)
     = [(''b.ts'', ''bar''), (''a.ts'', ''foo'')]
   \<and> contentHashes (buildAnalysisBundle (\<lambda>c. c) editedFs noGlob swapIndex defaultConfig)
     = [(''a.ts'', ''baz''), (''b.ts'', ''bar'')]
   \<and> includedHashes (\<lambda>c. c) swapFsA
        (buildAnalysisBundle (\<lambda>c. c) swapFsA noGlob swapIndex defaultConfig) = [''foo'', ''bar'']
   \<and> bundleKey (buildAnalysisBundle (\<lambda>c. c) swapFsA noGlob swapIndex defaultConfig) = ''bar:foo''
   \<and> getBundleHash (\<lambda>c. c) (buildAnalysisBundle (\<lambda>c. c) swapFsA noGlob swapIndex defaultConfig)
     = ''bar:foo''
   \<and> getBundleHash (\<lambda>c. c) (buildAnalysisBundle (\<lambda>c. c) swapFsA noGlob reversedIndex defaultConfig)
     = getBundleHash (\<lambda>c. c) (buildAnalysisBundle (\<lambda>c. c) swapFsA noGlob swapIndex defaultConfig)
   \<and> bundleKey (buildAnalysisBundle (\<lambda>c. c) editedFs noGlob swapIndex defaultConfig) = ''bar:baz''
   \<and> bundleKey (buildAnalysisBundle (\<lambda>c. c) editedFs noGlob swapIndex defaultConfig)
     \<noteq> bundleKey (buildAnalysisBundle (\<lambda>c. c) swapFsA noGlob swapIndex defaultConfig)
   \<and> getBundleFiles (buildAnalysisBundle (\<lambda>c. c) pythonFs noGlob pythonIndex defaultConfig)
     = [''requirements.txt'', ''requirements.txt'']
   \<and> mapValues (contentHashes (buildAnalysisBundle (\<lambda>c. c) pythonFs noGlob pythonIndex defaultConfig))
     = [''flask\<newline>'']
   \<and> includedHashes (\<lambda>c. c) pythonFs
        (buildAnalysisBundle (\<lambda>c. c) pythonFs noGlob pythonIndex defaultConfig) = [''flask\<newline>'']"
proof -
  let ?P = "buildAnalysisBundle (\<lambda>c. c) pythonFs noGlob pythonIndex defaultConfig"
  have hp: "hashContent (\<lambda>c. c) ''flask\<newline>'' = ''flask\<newline>''"
    by (simp add: hashContent_def substring_def)
  have filesP: "getBundleFiles ?P = [''requirements.txt'', ''requirements.txt'']"
    by (simp add: python_bundle getBundleFiles_def)
  have recordedP: "mapValues (contentHashes ?P) = [''flask\<newline>'']"
    by (simp add: python_bundle mapValues_def hp)
  note twice = getBundleHash_order [OF refl refl, where sha256hex = "\<lambda>c. c" and fs = pythonFs
      and glob = noGlob and index = pythonIndex and config = defaultConfig
      and fs' = pythonFs and glob' = noGlob and index' = pythonIndex and config' = defaultConfig]
  from twice have "mset (mapValues (contentHashes ?P)) = mset (includedHashes (\<lambda>c. c) pythonFs ?P)"
    by blast
  then have "mset (includedHashes (\<lambda>c. c) pythonFs ?P) = {#''flask\<newline>''#}"
    unfolding recordedP by simp
  then have incP: "includedHashes (\<lambda>c. c) pythonFs ?P = [''flask\<newline>'']"
    by (metis mset.simps(1) mset.simps(2) mset_single_iff_right)
  let ?A = "buildAnalysisBundle (\<lambda>c. c) swapFsA noGlob swapIndex defaultConfig"
  let ?R = "buildAnalysisBundle (\<lambda>c. c) swapFsA noGlob reversedIndex defaultConfig"
  let ?E = "buildAnalysisBundle (\<lambda>c. c) editedFs noGlob swapIndex defaultConfig"
  have h: "hashContent (\<lambda>c. c) ''foo'' = ''foo''" "hashContent (\<lambda>c. c) ''bar'' = ''bar''"
    "hashContent (\<lambda>c. c) ''baz'' = ''baz''" "hashContent (\<lambda>c. c) ''bar:foo'' = ''bar:foo''"
    by (simp_all add: hashContent_def substring_def)
  have at: "contentAt swapFsA ''a.ts'' = ''foo''" "contentAt swapFsA ''b.ts'' = ''bar''"
    "contentAt editedFs ''a.ts'' = ''baz''" "contentAt editedFs ''b.ts'' = ''bar''"
    by (simp_all add: contentAt_def swapFsA_def editedFs_def)
  have files: "getBundleFiles ?A = [''a.ts'', ''b.ts'']" "getBundleFiles ?R = [''b.ts'', ''a.ts'']"
    "getBundleFiles ?E = [''a.ts'', ''b.ts'']"
    by (simp_all add: swap_bundle_A reversed_bundle edited_bundle getBundleFiles_def)
  have recorded: "contentHashes ?A = [(''a.ts'', ''foo''), (''b.ts'', ''bar'')]"
    "contentHashes ?R = [(''b.ts'', ''bar''), (''a.ts'', ''foo'')]"
    "contentHashes ?E = [(''a.ts'', ''baz''), (''b.ts'', ''bar'')]"
    by (simp_all add: swap_bundle_A reversed_bundle edited_bundle h)
  have inc: "includedHashes (\<lambda>c. c) swapFsA ?A = [''foo'', ''bar'']"
    unfolding includedHashes_def files by (simp add: at h)
  have s: "sort [''foo'', ''bar''] = [''bar'', ''foo'']" "sort [''baz'', ''bar''] = [''bar'', ''baz'']"
    by code_simp+
  have keys: "bundleKey ?A = ''bar:foo''" "bundleKey ?E = ''bar:baz''"
    unfolding bundleKey_def recorded mapValues_def by (simp_all add: s)
  note order = getBundleHash_order [OF refl refl, where sha256hex = "\<lambda>c. c" and fs = swapFsA
      and glob = noGlob and index = swapIndex and config = defaultConfig
      and fs' = swapFsA and glob' = noGlob and index' = reversedIndex and config' = defaultConfig
      and b = ?A and b' = ?R]
  note edit = getBundleHash_order [OF refl refl, where sha256hex = "\<lambda>c. c" and fs = swapFsA
      and glob = noGlob and index = swapIndex and config = defaultConfig
      and fs' = editedFs and glob' = noGlob and index' = swapIndex and config' = defaultConfig
      and p = "''a.ts''" and b = ?A and b' = ?E]
  from order have "getBundleHash (\<lambda>c. c) ?A = hashContent (\<lambda>c. c) (bundleKey ?A)" by blast
  then have hashA: "getBundleHash (\<lambda>c. c) ?A = ''bar:foo''" unfolding keys h .
  from order have "mset (mapValues (contentHashes ?A)) = mset (includedHashes (\<lambda>c. c) swapFsA ?A)"
    by blast
  have "mset (mapValues (contentHashes ?R)) = mset (mapValues (contentHashes ?A))"
    unfolding recorded mapValues_def by simp
  with order have multiset: "getBundleHash (\<lambda>c. c) ?R = getBundleHash (\<lambda>c. c) ?A" by blast
  have "set (getBundleFiles ?R) = set (getBundleFiles ?A)"
    unfolding files by auto
  with order have reversed: "getBundleHash (\<lambda>c. c) ?R = getBundleHash (\<lambda>c. c) ?A" by blast
  have "\<forall>h \<in> set (mapValues (contentHashes ?A) @ mapValues (contentHashes ?E)). CHR '':'' \<notin> set h"
    "length (mapValues (contentHashes ?E)) = length (mapValues (contentHashes ?A))"
    "mset (mapValues (contentHashes ?E)) \<noteq> mset (mapValues (contentHashes ?A))"
    unfolding recorded mapValues_def by simp_all
  with edit have general: "bundleKey ?E \<noteq> bundleKey ?A" by blast
  have "set (getBundleFiles ?E) = set (getBundleFiles ?A)" "''a.ts'' \<in> set (getBundleFiles ?A)"
    "\<forall>q \<in> set (getBundleFiles ?A). q \<noteq> ''a.ts'' \<longrightarrow> contentAt editedFs q = contentAt swapFsA q"
    "hashContent (\<lambda>c. c) (contentAt editedFs ''a.ts'') \<noteq> hashContent (\<lambda>c. c) (contentAt swapFsA ''a.ts'')"
    "\<forall>q \<in> set (getBundleFiles ?A).
        CHR '':'' \<notin> set (hashContent (\<lambda>c. c) (contentAt swapFsA q))
        \<and> CHR '':'' \<notin> set (hashContent (\<lambda>c. c) (contentAt editedFs q))"
    unfolding files by (simp_all add: at h)
  with edit have edited: "bundleKey ?E \<noteq> bundleKey ?A" by blast
  from recorded inc keys hashA reversed edited filesP recordedP incP show ?thesis by blast
qed

text \<open>
  C9 as stated (the hash changes whenever the content of an included file changes) fails
  when two included files exchange their contents: the recorded hashes are the same up to
  order, and so is the bundle hash, for every digest function.
\<close>

theorem getBundleHash_order_counterexample:
  "\<forall>sha256hex.
     getBundleFiles (buildAnalysisBundle sha256hex swapFsA noGlob swapIndex defaultConfig)
       = [''a.ts'', ''b.ts'']
     \<and> getBundleFiles (buildAnalysisBundle sha256hex swapFsB noGlob swapIndex defaultConfig)
       = [''a.ts'', ''b.ts'']
     \<and> map_option fcontent (swapFsA ''a.ts'') = Some ''foo''
     \<and> map_option fcontent (swapFsB ''a.ts'') = Some ''bar''
     \<and> getBundleHash sha256hex (buildAnalysisBundle sha256hex swapFsA noGlob swapIndex defaultConfig)
       = getBundleHash sha256hex (buildAnalysisBundle sha256hex swapFsB noGlob swapIndex defaultConfig)"
proof
  fix sha256hex
  let ?A = "buildAnalysisBundle sha256hex swapFsA noGlob swapIndex defaultConfig"
  let ?B = "buildAnalysisBundle sha256hex swapFsB noGlob swapIndex defaultConfig"
  have files: "getBundleFiles ?A = [''a.ts'', ''b.ts'']" "getBundleFiles ?B = [''a.ts'', ''b.ts'']"
    by (simp_all add: swap_bundle_A swap_bundle_B getBundleFiles_def)
  have contents: "map_option fcontent (swapFsA ''a.ts'') = Some ''foo''"
    "map_option fcontent (swapFsB ''a.ts'') = Some ''bar''"
    by (simp_all add: swapFsA_def swapFsB_def)
  have "mset (mapValues (contentHashes ?A)) = mset (mapValues (contentHashes ?B))"
    by (simp add: swap_bundle_A swap_bundle_B mapValues_def)
  then have "bundleKey ?A = bundleKey ?B" by (rule bundleKey_values)
  then have "getBundleHash sha256hex ?A = getBundleHash sha256hex ?B"
    unfolding getBundleHash_key by (rule arg_cong)
  with files contents
  show "getBundleFiles ?A = [''a.ts'', ''b.ts''] \<and> getBundleFiles ?B = [''a.ts'', ''b.ts'']
     \<and> map_option fcontent (swapFsA ''a.ts'') = Some ''foo''
     \<and> map_option fcontent (swapFsB ''a.ts'') = Some ''bar''
     \<and> getBundleHash sha256hex ?A = getBundleHash sha256hex ?B"
    by blast
qed

section \<open>The secret scanner\<close>

text \<open>
  Evaluating the scanner on concrete files: the character ranges written out, and
  \<open>canonicalize\<close> and \<open>toLowerCaseChar\<close> on the printable ASCII characters and the
  white space, as tables.
\<close>

lemma charRanges:
  "lowerCase = ''abcdefghijklmnopqrstuvwxyz''"
  "upperCase = ''ABCDEFGHIJKLMNOPQRSTUVWXYZ''"
  "digits = ''0123456789''"
  by code_simp+

lemma canonicalize_table:
  "map (canonicalize True)
     ('' !#$%&()*+,-./0123456789:;<=>?@ABCDEFGHIJKLMNOPQRSTUVWXYZ[]^''
      @ ''_abcdefghijklmnopqrstuvwxyz{|}~''
      @ [CHR 0x22, CHR 0x27, CHR 0x5C, CHR 0x60, CHR 0x09, CHR 0x0A, CHR 0x0B, CHR 0x0C, CHR 0x0D, CHR 0xA0])
   = '' !#$%&()*+,-./0123456789:;<=>?@ABCDEFGHIJKLMNOPQRSTUVWXYZ[]^''
      @ ''_ABCDEFGHIJKLMNOPQRSTUVWXYZ{|}~''
      @ [CHR 0x22, CHR 0x27, CHR 0x5C, CHR 0x60, CHR 0x09, CHR 0x0A, CHR 0x0B, CHR 0x0C, CHR 0x0D, CHR 0xA0]"
  by code_simp

lemma toLowerCaseChar_table:
  "map toLowerCaseChar
     ('' !#$%&()*+,-./0123456789:;<=>?@ABCDEFGHIJKLMNOPQRSTUVWXYZ[]^''
      @ ''_abcdefghijklmnopqrstuvwxyz{|}~''
      @ [CHR 0x22, CHR 0x27, CHR 0x5C, CHR 0x60, CHR 0x09, CHR 0x0A, CHR 0x0B, CHR 0x0C, CHR 0x0D, CHR 0xA0])
   = '' !#$%&()*+,-./0123456789:;<=>?@abcdefghijklmnopqrstuvwxyz[]^''
      @ ''_abcdefghijklmnopqrstuvwxyz{|}~''
      @ [CHR 0x22, CHR 0x27, CHR 0x5C, CHR 0x60, CHR 0x09, CHR 0x0A, CHR 0x0B, CHR 0x0C, CHR 0x0D, CHR 0xA0]"
  by code_simp

lemma canonicalize_False [simp]: "canonicalize False c = c"
  by (simp add: canonicalize_def)

lemmas canonicalize_ascii = canonicalize_table [simplified]

lemmas toLowerCaseChar_ascii = toLowerCaseChar_table [simplified]

lemmas scanner_defs =
  scanForSecrets_def scanContent_def isDangerousFile_def isExampleFile_def isInComment_def
  isPlaceholder_def placeholders_def maskSecret_def secretChars_def lineAt_def
  sensitiveFileIssue_def basename_def startsWith_def endsWith_def includesStr_def
  DANGEROUS_FILES_def SECRET_PATTERNS_def assignment_def

lemmas regex_defs =
  seq_def lit_def oneOf_def noneOf_def zeroOrMore_def oneOrMore_def optional_def
  whiteSpaceChars_def quotes_def charRanges
  execAll.simps replaceAllMatches.simps repeatMatcher.simps advances_def clearCaptures_def capture_def
  canonicalize_ascii

lemmas string_defs =
  toLowerCase_def toLowerCaseChar_ascii suffix_to_prefix trim_def trimStart_def trimEnd_def isWhiteSpace_def
  substring_def

subsection \<open>Example and template files\<close>

lemma includesStr_iff: "includesStr s pat \<longleftrightarrow> sublist pat s"
  by (simp add: includesStr_def indexOf_absent_iff)

lemma sublist_toLowerCase:
  assumes "sublist pat s"
  shows "sublist (toLowerCase pat) (toLowerCase s)"
proof -
  from assms obtain ps ss where "s = ps @ pat @ ss" by (auto simp: sublist_def)
  then have "toLowerCase s = toLowerCase ps @ toLowerCase pat @ toLowerCase ss"
    by (simp add: toLowerCase_def)
  then show ?thesis unfolding sublist_def by blast
qed

lemma suffix_toLowerCase:
  assumes "suffix pat s"
  shows "suffix (toLowerCase pat) (toLowerCase s)"
proof -
  from assms obtain ps where "s = ps @ pat" by (auto simp: suffix_def)
  then have "toLowerCase s = toLowerCase ps @ toLowerCase pat"
    by (simp add: toLowerCase_def)
  then show ?thesis unfolding suffix_def by blast
qed

lemma example_markers:
  "toLowerCase ''.example'' = ''.example''" "toLowerCase ''.template'' = ''.template''"
  "toLowerCase ''.sample'' = ''.sample''" "toLowerCase ''.md'' = ''.md''"
  by (simp_all add: toLowerCase_def toLowerCaseChar_ascii)

lemma isExampleFile_name:
  assumes "sublist ''.example'' f \<or> sublist ''.template'' f \<or> sublist ''.sample'' f
    \<or> suffix ''.md'' f"
  shows "isExampleFile f content"
proof -
  from assms have "sublist ''.example'' (toLowerCase f) \<or> sublist ''.template'' (toLowerCase f)
      \<or> sublist ''.sample'' (toLowerCase f) \<or> suffix ''.md'' (toLowerCase f)"
    using sublist_toLowerCase [of "''.example''" f] sublist_toLowerCase [of "''.template''" f]
      sublist_toLowerCase [of "''.sample''" f] suffix_toLowerCase [of "''.md''" f]
    unfolding example_markers by blast
  then show ?thesis
    by (auto simp: isExampleFile_def Let_def includesStr_iff endsWith_def)
qed

lemma scanContent_example:
  assumes "sublist ''.example'' f \<or> sublist ''.template'' f \<or> sublist ''.sample'' f
    \<or> suffix ''.md'' f"
  shows "scanContent f content = Some []"
  using isExampleFile_name [OF assms] by (simp add: scanContent_def)

lemma scanFiles_example:
  assumes "\<forall>f \<in> set files. sublist ''.example'' f \<or> sublist ''.template'' f
    \<or> sublist ''.sample'' f \<or> suffix ''.md'' f"
  shows "scanFiles fs files = Some (map sensitiveFileIssue (filter isDangerousFile files))"
  using assms
proof (induction files)
  case Nil
  then show ?case by simp
next
  case (Cons f files)
  then have "scanContent f content = Some []" for content
    by (intro scanContent_example) simp
  with Cons show ?case by (simp split: option.splits)
qed

lemma example_names:
  "sublist ''.example'' ''config.example.ts''" "suffix ''.md'' ''docs/setup.md''"
  "sublist ''.example'' ''.env.example''"
  by (simp_all add: sublist_code suffix_to_prefix)

lemma example_not_dangerous:
  "\<not> isDangerousFile ''config.example.ts''" "\<not> isDangerousFile ''docs/setup.md''"
  by (simp_all add: scanner_defs string_defs)

text \<open>
  C5, as amended. For files whose path contains \<open>.example\<close>, \<open>.template\<close> or
  \<open>.sample\<close>, or ends in \<open>.md\<close>, the content rules are exempted entirely:
  \<open>scanContent\<close> returns no issue, whatever the content. \<open>scanForSecrets\<close> reports for
  them exactly one \<open>sensitive_file\<close> issue for each file whose name \<open>isDangerousFile\<close>
  flags, and so no issue at all when no name is flagged.
\<close>

theorem scanForSecrets_example_files:
  assumes "\<forall>f \<in> set files. sublist ''.example'' f \<or> sublist ''.template'' f
    \<or> sublist ''.sample'' f \<or> suffix ''.md'' f"
  shows "(\<forall>f \<in> set files. \<forall>content. scanContent f content = Some [])
     \<and> scanForSecrets fs files =
         Some \<lparr> safe = (filter isDangerousFile files = []),
                issues = map sensitiveFileIssue (filter isDangerousFile files) \<rparr>
     \<and> ((\<forall>f \<in> set files. \<not> isDangerousFile f)
          \<longrightarrow> scanForSecrets fs files = Some \<lparr> safe = True, issues = [] \<rparr>)"
proof -
  have content: "\<forall>f \<in> set files. \<forall>content. scanContent f content = Some []"
    using assms scanContent_example by blast
  have res: "scanForSecrets fs files =
         Some \<lparr> safe = (filter isDangerousFile files = []),
                issues = map sensitiveFileIssue (filter isDangerousFile files) \<rparr>"
    unfolding scanForSecrets_def scanFiles_example [OF assms] by simp
  have "scanForSecrets fs files = Some \<lparr> safe = True, issues = [] \<rparr>"
    if "\<forall>f \<in> set files. \<not> isDangerousFile f"
  proof -
    from that have "filter isDangerousFile files = []" by (simp add: filter_empty_conv)
    with res show ?thesis by simp
  qed
  with content res show ?thesis by blast
qed

theorem scanForSecrets_example_files_witness:
  "sublist ''.example'' ''config.example.ts'' \<and> suffix ''.md'' ''docs/setup.md''
   \<and> map_option fcontent (exampleFs ''config.example.ts'')
       = Some (''const password = '' @ [CHR 0x22] @ ''hunter2hunter2'' @ [CHR 0x22] @ '';'')
   \<and> scanForSecrets exampleFs [''config.example.ts'', ''docs/setup.md'']
       = Some \<lparr> safe = True, issues = [] \<rparr>"
proof -
  let ?files = "[''config.example.ts'', ''docs/setup.md'']"
  have names: "\<forall>f \<in> set ?files. sublist ''.example'' f \<or> sublist ''.template'' f
      \<or> sublist ''.sample'' f \<or> suffix ''.md'' f"
    using example_names by simp
  have safe: "\<forall>f \<in> set ?files. \<not> isDangerousFile f"
    using example_not_dangerous by simp
  from scanForSecrets_example_files [OF names, of exampleFs] safe
  have "scanForSecrets exampleFs ?files = Some \<lparr> safe = True, issues = [] \<rparr>" by blast
  moreover have "map_option fcontent (exampleFs ''config.example.ts'')
       = Some (''const password = '' @ [CHR 0x22] @ ''hunter2hunter2'' @ [CHR 0x22] @ '';'')"
    by (simp add: exampleFs_def leakLine_def)
  ultimately show ?thesis using example_names by blast
qed

text \<open>
  C5 as stated fails for \<open>.env.example\<close>: the name check comes first, and the file is
  reported as a sensitive file: one issue, not zero.
\<close>

theorem scanForSecrets_example_files_counterexample:
  "sublist ''.example'' ''.env.example''
   \<and> scanForSecrets exampleFs [''.env.example'']
       = Some \<lparr> safe = False,
                issues = [\<lparr> file_path = ''.env.example'', line = 0, secretType = SensitiveFile,
                            snippet = ''File '' @ [CHR 0x22] @ ''.env.example'' @ [CHR 0x22]
                                      @ '' should never be uploaded'' \<rparr>] \<rparr>"
proof -
  have "scanForSecrets exampleFs [''.env.example'']
       = Some \<lparr> safe = False,
                issues = [\<lparr> file_path = ''.env.example'', line = 0, secretType = SensitiveFile,
                            snippet = ''File '' @ [CHR 0x22] @ ''.env.example'' @ [CHR 0x22]
                                      @ '' should never be uploaded'' \<rparr>] \<rparr>"
    by (simp add: scanner_defs string_defs)
  with example_names show ?thesis by blast
qed

subsection \<open>Snippets\<close>

text \<open>
  C6 fails on the code. A file \<open>config.ts\<close> with the line
  \<open>const password = "hunter2hunter2";\<close> gives one password issue whose snippet is the whole
  line, the password in full: \<open>maskSecret\<close> masks a quoted value only from 16 characters
  of its character class on (as in the second equation) and an unquoted one from 20 on,
  while the password rule reports quoted values from 8 characters on.
\<close>

theorem scanForSecrets_leaks_password:
  "scanForSecrets leakFs [''config.ts''] =
     Some \<lparr> safe = False,
            issues = [\<lparr> file_path = ''config.ts'', line = 1, secretType = Password,
                        snippet = ''const password = '' @ [CHR 0x22] @ ''hunter2hunter2''
                                  @ [CHR 0x22] @ '';'' \<rparr>] \<rparr>
   \<and> maskSecret (''key = '' @ [CHR 0x22] @ ''hunter2hunter2hunter2'' @ [CHR 0x22])
       = ''key = '' @ [CHR 0x22] @ ''***MASKED***'' @ [CHR 0x22]"
proof -
  have "scanForSecrets leakFs [''config.ts''] =
     Some \<lparr> safe = False,
            issues = [\<lparr> file_path = ''config.ts'', line = 1, secretType = Password,
                        snippet = ''const password = '' @ [CHR 0x22] @ ''hunter2hunter2''
                                  @ [CHR 0x22] @ '';'' \<rparr>] \<rparr>"
    by (simp add: leakFs_def leakLine_def scanner_defs regex_defs string_defs)
  moreover have "maskSecret (''key = '' @ [CHR 0x22] @ ''hunter2hunter2hunter2'' @ [CHR 0x22])
       = ''key = '' @ [CHR 0x22] @ ''***MASKED***'' @ [CHR 0x22]"
    by (simp add: scanner_defs regex_defs string_defs)
  ultimately show ?thesis by blast
qed

end
